theory Spec2Isabelle
  imports Main
begin

section \<open>Python strings\<close>

text \<open>
  A Python \<open>str\<close> is a sequence of Unicode code points, and \<open>len\<close>, slicing,
  \<open>strip\<close> and the \<open>re\<close> module all count code points. A string is therefore a list
  of code points (natural numbers); HOL's \<open>char\<close> is a byte and would miscount the
  Korean and emoji literals of \<open>telegram_digest.py\<close>.
\<close>

type_synonym pystr = "nat list"

definition ascii :: "string \<Rightarrow> pystr" where
  "ascii s = map of_char s"

text \<open>
  \<open>Py_UNICODE_ISSPACE\<close>: the code points for which \<open>str.isspace\<close> holds. Both
  \<open>str.strip()\<close> without argument and the class \<open>\s\<close> of a \<open>str\<close> pattern use it.
\<close>

definition py_isspace :: "nat \<Rightarrow> bool" where
  "py_isspace c \<longleftrightarrow>
     (9 \<le> c \<and> c \<le> 13) \<or> (28 \<le> c \<and> c \<le> 32) \<or> c = 133 \<or> c = 160 \<or> c = 5760 \<or>
     (8192 \<le> c \<and> c \<le> 8202) \<or> c = 8232 \<or> c = 8233 \<or> c = 8239 \<or> c = 8287 \<or>
     c = 12288"

text \<open>\<open>s.lstrip(chars)\<close>, \<open>s.rstrip(chars)\<close> and \<open>s.strip(chars)\<close>, the set of
  stripped characters given as a predicate.\<close>

definition lstrip_by :: "(nat \<Rightarrow> bool) \<Rightarrow> pystr \<Rightarrow> pystr" where
  "lstrip_by p s = dropWhile p s"

definition rstrip_by :: "(nat \<Rightarrow> bool) \<Rightarrow> pystr \<Rightarrow> pystr" where
  "rstrip_by p s = rev (dropWhile p (rev s))"

definition strip_by :: "(nat \<Rightarrow> bool) \<Rightarrow> pystr \<Rightarrow> pystr" where
  "strip_by p s = rstrip_by p (lstrip_by p s)"

definition py_strip :: "pystr \<Rightarrow> pystr" where
  "py_strip s = strip_by py_isspace s"

text \<open>\<open>sep.join(xs)\<close>.\<close>

fun py_join :: "pystr \<Rightarrow> pystr list \<Rightarrow> pystr" where
  "py_join sep [] = []"
| "py_join sep [x] = x"
| "py_join sep (x # y # ys) = x @ sep @ py_join sep (y # ys)"

text \<open>\<open>s.split(chr(c))\<close>: the pieces of \<open>s\<close> between the occurrences of the code
  point \<open>c\<close>; the lines of a text are its pieces between line feeds.\<close>

fun split_on :: "nat \<Rightarrow> pystr \<Rightarrow> pystr list" where
  "split_on c [] = [[]]"
| "split_on c (x # xs) =
     (if x = c then [] # split_on c xs
      else (case split_on c xs of
              [] \<Rightarrow> [[x]]
            | l # ls \<Rightarrow> (x # l) # ls))"

definition py_lines :: "pystr \<Rightarrow> pystr list" where
  "py_lines s = split_on 10 s"

text \<open>The slice \<open>xs[:n]\<close> for a Python integer \<open>n\<close>: a negative \<open>n\<close> counts from
  the end.\<close>

definition slice_to :: "'a list \<Rightarrow> int \<Rightarrow> 'a list" where
  "slice_to xs n =
     (if 0 \<le> n then take (nat n) xs else take (nat (int (length xs) + n)) xs)"

text \<open>\<open>str(n)\<close> for an integer: its decimal digits, with a minus sign when
  negative.\<close>

fun nat_digits :: "nat \<Rightarrow> pystr" where
  "nat_digits n = (if n < 10 then [48 + n] else nat_digits (n div 10) @ [48 + n mod 10])"

declare nat_digits.simps [simp del]

definition py_str_int :: "int \<Rightarrow> pystr" where
  "py_str_int i = (if i < 0 then 45 # nat_digits (nat (- i)) else nat_digits (nat i))"

section \<open>Text normalizer\<close>

text \<open>
  \<open>re.sub(r"\s+", " ", s)\<close>: scanning from the left, every maximal run of whitespace
  is replaced by one space (code point 32).
\<close>

function sub_ws :: "pystr \<Rightarrow> pystr" where
  "sub_ws [] = []"
| "sub_ws (c # cs) =
     (if py_isspace c then 32 # sub_ws (dropWhile py_isspace cs) else c # sub_ws cs)"
  by pat_completeness auto
termination
  by (relation "measure length") (auto simp: less_Suc_eq_le length_dropWhile_le)

text \<open>
  \<open>normalize_text(text)\<close> is \<open>re.sub(r"\s+", " ", (text or "").strip())\<close>. The argument
  may be \<open>None\<close>, which \<open>text or ""\<close> turns into the empty string.
\<close>

definition normalize_text :: "pystr option \<Rightarrow> pystr" where
  "normalize_text text =
     sub_ws (py_strip (case text of None \<Rightarrow> [] | Some s \<Rightarrow> s))"

section \<open>Local summarizer\<close>

text \<open>The characters of the class \<open>[.!?\<dots>]\<close> of the split pattern: full stop,
  exclamation mark, question mark and their full-width forms U+3002, U+FF01, U+FF1F.\<close>

definition is_sentence_end :: "nat \<Rightarrow> bool" where
  "is_sentence_end c \<longleftrightarrow> c = 46 \<or> c = 33 \<or> c = 63 \<or> c = 12290 \<or> c = 65281 \<or> c = 65311"

text \<open>
  \<open>re.split(pattern, text)\<close> for the pattern \<open>(?<=[.!?\<dots>])\s+|\n+\<close>. The engine scans
  from the left. At each position it first tries the left alternative (the character
  before the position ends a sentence, and a maximal run of whitespace starts here),
  then the right one (a maximal run of line feeds starts here); a match closes the
  current chunk and the scan resumes after it. \<open>prev\<close> is the character before the
  position (\<open>None\<close> at the start of the text), \<open>acc\<close> the chunk read so far. The
  text left when the scan ends is the last chunk, also when it is empty.
\<close>

function re_split_from :: "nat option \<Rightarrow> pystr \<Rightarrow> pystr \<Rightarrow> pystr list" where
  "re_split_from prev acc [] = [acc]"
| "re_split_from prev acc (c # cs) =
     (if (case prev of None \<Rightarrow> False | Some p \<Rightarrow> is_sentence_end p) \<and> py_isspace c
      then acc # re_split_from (Some (last (c # takeWhile py_isspace cs))) []
                   (dropWhile py_isspace cs)
      else if c = 10
      then acc # re_split_from (Some 10) [] (dropWhile (\<lambda>x. x = 10) cs)
      else re_split_from (Some c) (acc @ [c]) cs)"
  by pat_completeness auto
termination
  by (relation "measure (\<lambda>(prev, acc, s). length s)")
     (auto simp: less_Suc_eq_le length_dropWhile_le)

definition re_split :: "pystr \<Rightarrow> pystr list" where
  "re_split text = re_split_from None [] text"

text \<open>The characters \<open>chunk.strip(" -\<bullet>")\<close> removes: space, hyphen and the bullet
  U+2022.\<close>

definition is_bullet_char :: "nat \<Rightarrow> bool" where
  "is_bullet_char c \<longleftrightarrow> c = 32 \<or> c = 45 \<or> c = 8226"

definition bullet_marker :: pystr where
  "bullet_marker = [8226, 32]"

definition summarize_locally :: "pystr \<Rightarrow> int \<Rightarrow> pystr" where
  "summarize_locally text max_sentences =
     (let chunks = re_split text;
          filtered = map (strip_by is_bullet_char)
                       (filter (\<lambda>chunk. length (py_strip chunk) > 15) chunks);
          filtered = (if filtered = [] then [take 240 text] else filtered);
          selected = slice_to filtered max_sentences
      in py_join [10] (map (\<lambda>s. bullet_marker @ take 220 s) selected))"

section \<open>Summarizer\<close>

text \<open>\<open>os.getenv\<close>: the process environment, a map from names to values.\<close>

type_synonym environ = "pystr \<Rightarrow> pystr option"

definition getenv_default :: "environ \<Rightarrow> pystr \<Rightarrow> pystr \<Rightarrow> pystr" where
  "getenv_default env k d = (case env k of None \<Rightarrow> d | Some v \<Rightarrow> v)"

text \<open>Truth of a value of type \<open>str | None\<close>: \<open>None\<close> and the empty string are
  false. \<open>a or b\<close> is \<open>a\<close> when \<open>a\<close> is true and \<open>b\<close> otherwise.\<close>

definition truthy :: "pystr option \<Rightarrow> bool" where
  "truthy v = (case v of None \<Rightarrow> False | Some s \<Rightarrow> s \<noteq> [])"

definition or_else :: "pystr option \<Rightarrow> pystr \<Rightarrow> pystr" where
  "or_else a b = (case a of None \<Rightarrow> b | Some s \<Rightarrow> if s \<noteq> [] then s else b)"

record Summarizer =
  api_key :: "pystr option"
  base_url :: pystr
  model :: pystr

definition Summarizer_init :: "environ \<Rightarrow> pystr option \<Rightarrow> Summarizer" where
  "Summarizer_init env model_arg =
     \<lparr> api_key = env (ascii ''OPENAI_API_KEY''),
       base_url = getenv_default env (ascii ''OPENAI_BASE_URL'') (ascii ''https://api.openai.com/v1''),
       model = or_else model_arg (getenv_default env (ascii ''OPENAI_MODEL'') (ascii ''gpt-4o-mini'')) \<rparr>"

text \<open>
  The request \<open>_summarize_remote\<close> posts: the URL, the \<open>Authorization\<close> header and the
  JSON body's model and two message contents (the temperature 0.2 and the timeout of
  30 seconds are constants of every request).
\<close>

record chat_request =
  url :: pystr
  authorization :: pystr
  req_model :: pystr
  system_content :: pystr
  user_content :: pystr

text \<open>
  What the summarization service does with a request is outside the program. A
  request either makes one of the calls of \<open>_summarize_remote\<close> raise (\<open>requests.post\<close>
  on a network error or timeout, \<open>raise_for_status\<close> on an error status,
  \<open>response.json()\<close> on a body that is not JSON, the indexing
  \<open>payload["choices"][0]["message"]["content"]\<close> on a missing field, \<open>.strip()\<close> on a
  content that is not a string), or yields the content string. Each of these
  exceptions is a subclass of \<open>Exception\<close>.
\<close>

datatype exn =
  RequestException | HTTPError | JSONDecodeError | KeyError | IndexError | TypeError
  | AttributeError

datatype reply = Raised exn | Content pystr

text \<open>The service may answer the same request differently each time: its answer
  depends on how many requests the run has made before.\<close>

type_synonym service = "nat \<Rightarrow> chat_request \<Rightarrow> reply"

text \<open>The effects of a run that the claims speak about: the number of requests sent
  to the service, and the causes logged at warning level.\<close>

record world =
  remote_calls :: nat
  warnings :: "exn list"

definition prompt_head :: pystr where
  "prompt_head =
     [50500, 47000, 32, 53588, 47112, 44536, 47016, 32, 47700, 49884, 51648, 47484, 32, 50,
      126, 51, 44060, 32, 54645, 49900, 32, 98, 117, 108, 108, 101, 116, 47196, 32, 54620,
      44397, 50612, 32, 50836, 50557, 54616, 49464, 50836, 46, 32, 51473, 50836, 54620, 32,
      49688, 52824, 47, 51068, 51221, 47, 54665, 46041, 50836, 52397, 51012, 32, 50864,
      49440, 32, 48152, 50689, 54616, 44256, 32, 52, 48, 48, 51088, 32, 51060, 45236, 47196,
      32, 51089, 49457, 54616, 49464, 50836, 46, 10, 10, 47700, 49884, 51648, 58, 10]"

definition system_persona :: pystr where
  "system_persona =
     [45320, 45716, 32, 53588, 47112, 44536, 47016, 32, 45684, 49828, 47112, 53552, 32,
      50640, 46356, 53552, 45796, 46]"

definition build_request :: "Summarizer \<Rightarrow> pystr \<Rightarrow> chat_request" where
  "build_request sm text =
     \<lparr> url = rstrip_by (\<lambda>c. c = 47) (base_url sm) @ ascii ''/chat/completions'',
       authorization =
         ascii ''Bearer '' @ (case api_key sm of None \<Rightarrow> ascii ''None'' | Some k \<Rightarrow> k),
       req_model = model sm,
       system_content = system_persona,
       user_content = prompt_head @ text \<rparr>"

text \<open>\<open>Summarizer._summarize_remote\<close>: one request; the result is the exception
  raised or the stripped content.\<close>

definition summarize_remote ::
  "Summarizer \<Rightarrow> service \<Rightarrow> pystr \<Rightarrow> world \<Rightarrow> (exn + pystr) \<times> world" where
  "summarize_remote sm svc text w =
     (let w' = w\<lparr>remote_calls := Suc (remote_calls w)\<rparr>
      in case svc (remote_calls w) (build_request sm text) of
           Raised e \<Rightarrow> (Inl e, w')
         | Content c \<Rightarrow> (Inr (py_strip c), w'))"

definition no_text_sentinel :: pystr where
  "no_text_sentinel = [40, 53581, 49828, 53944, 32, 50630, 51020, 41]"

text \<open>
  \<open>Summarizer.summarize\<close>. The handler \<open>except Exception\<close> catches every exception
  of the remote call, logs it and falls through to the local summarizer; the result
  type keeps the error branch so that "no error escapes" is a statement about the
  result.
\<close>

definition summarize ::
  "Summarizer \<Rightarrow> service \<Rightarrow> pystr option \<Rightarrow> world \<Rightarrow> (exn + pystr) \<times> world" where
  "summarize sm svc text w =
     (let cleaned = normalize_text text
      in if cleaned = [] then (Inr no_text_sentinel, w)
         else if truthy (api_key sm)
         then (case summarize_remote sm svc cleaned w of
                 (Inr v, w') \<Rightarrow> (Inr v, w')
               | (Inl e, w') \<Rightarrow>
                   (Inr (summarize_locally cleaned 3), w'\<lparr>warnings := warnings w' @ [e]\<rparr>))
         else (Inr (summarize_locally cleaned 3), w))"

section \<open>Message links\<close>

text \<open>The fields of Telethon's \<open>Channel\<close> that the program reads.\<close>

record Channel =
  id' :: int
  username :: "pystr option"

definition startswith :: "pystr \<Rightarrow> pystr \<Rightarrow> bool" where
  "startswith s pre \<longleftrightarrow> take (length pre) s = pre"

definition build_message_link :: "Channel \<Rightarrow> int \<Rightarrow> pystr" where
  "build_message_link channel message_id =
     (case (if truthy (username channel) then username channel else None) of
        Some u \<Rightarrow> ascii ''https://t.me/'' @ u @ ascii ''/'' @ py_str_int message_id
      | None \<Rightarrow>
          (let channel_id = \<bar>id' channel\<bar>;
               channel_id_str = py_str_int channel_id;
               internal_id = (if startswith channel_id_str (ascii ''100'')
                              then drop 3 channel_id_str else channel_id_str)
           in ascii ''https://t.me/c/'' @ internal_id @ ascii ''/'' @ py_str_int message_id))"

section \<open>Collecting unread messages\<close>

record DigestItem =
  channel_title :: pystr
  channel_id :: int
  message_id :: int
  date :: pystr
  text' :: pystr
  summary :: pystr
  message_link :: pystr

text \<open>
  The messaging-platform client is outside the program: a dialog has an entity (a
  channel or something else), a title and an unread count; a message has an id,
  \<open>message\<close> and \<open>raw_text\<close> (each a string or \<open>None\<close>) and a date, kept here as the
  string \<open>msg.date.astimezone().strftime("%Y-%m-%d %H:%M")\<close> gives.
  \<open>iter_messages client ch n\<close> is what \<open>client.iter_messages(entity, limit=n)\<close> yields.

  The program also reads \<open>msg.unread\<close>. Telethon's \<open>Message\<close> defines no such attribute
  (it has \<open>media_unread\<close>), so on a message of that class the read raises
  \<open>AttributeError\<close>: this is \<open>unread = None\<close>. \<open>unread = Some b\<close> is a message object
  that carries the attribute, with the value \<open>b\<close>.
\<close>

datatype entity = IsChannel Channel | NotChannel

record Dialog =
  entity :: entity
  title :: pystr
  unread_count :: int

record Message =
  msg_id :: int
  unread :: "bool option"
  message :: "pystr option"
  raw_text :: "pystr option"
  msg_date :: pystr

record TelegramClient =
  iter_dialogs :: "Dialog list"
  iter_messages :: "Channel \<Rightarrow> int \<Rightarrow> Message list"

text \<open>
  The loop over \<open>client.iter_messages\<close> that fills \<open>messages\<close>: a message that is not
  unread, or has neither \<open>message\<close> nor \<open>raw_text\<close>, is skipped. Nothing catches the
  \<open>AttributeError\<close> of \<open>msg.unread\<close>: it ends the loop and the run.
\<close>

fun keep_messages :: "Message list \<Rightarrow> exn + Message list" where
  "keep_messages [] = Inr []"
| "keep_messages (msg # msgs) =
     (case unread msg of
        None \<Rightarrow> Inl AttributeError
      | Some u \<Rightarrow>
          if \<not> u then keep_messages msgs
          else if \<not> truthy (message msg) \<and> \<not> truthy (raw_text msg) then keep_messages msgs
          else (case keep_messages msgs of
                  Inl e \<Rightarrow> Inl e
                | Inr kept \<Rightarrow> Inr (msg # kept)))"

text \<open>The loop over the kept messages (after \<open>messages.reverse()\<close>): one item per
  message.\<close>

fun digest_messages ::
  "Summarizer \<Rightarrow> service \<Rightarrow> Dialog \<Rightarrow> Channel \<Rightarrow> Message list \<Rightarrow> world
     \<Rightarrow> (exn + DigestItem list) \<times> world" where
  "digest_messages sm svc dialog ch [] w = (Inr [], w)"
| "digest_messages sm svc dialog ch (msg # msgs) w =
     (let text = or_else (raw_text msg) (or_else (message msg) [])
      in case summarize sm svc (Some text) w of
           (Inl e, w') \<Rightarrow> (Inl e, w')
         | (Inr s, w') \<Rightarrow>
             (let item = \<lparr> channel_title = title dialog, channel_id = id' ch,
                            message_id = msg_id msg, date = msg_date msg, text' = text,
                            summary = s, message_link = build_message_link ch (msg_id msg) \<rparr>
              in case digest_messages sm svc dialog ch msgs w' of
                   (Inl e, w'') \<Rightarrow> (Inl e, w'')
                 | (Inr items, w'') \<Rightarrow> (Inr (item # items), w'')))"

text \<open>The outer loop, over the dialogs.\<close>

fun fetch_dialogs ::
  "TelegramClient \<Rightarrow> Summarizer \<Rightarrow> service \<Rightarrow> int \<Rightarrow> Dialog list \<Rightarrow> world
     \<Rightarrow> (exn + DigestItem list) \<times> world" where
  "fetch_dialogs client sm svc limit [] w = (Inr [], w)"
| "fetch_dialogs client sm svc limit (dialog # dialogs) w =
     (case entity dialog of
        NotChannel \<Rightarrow> fetch_dialogs client sm svc limit dialogs w
      | IsChannel ch \<Rightarrow>
          if unread_count dialog \<le> 0 then fetch_dialogs client sm svc limit dialogs w
          else
            (let count = min (unread_count dialog) limit
             in case keep_messages (iter_messages client ch count) of
                  Inl e \<Rightarrow> (Inl e, w)
                | Inr messages \<Rightarrow>
                    (case digest_messages sm svc dialog ch (rev messages) w of
                       (Inl e, w') \<Rightarrow> (Inl e, w')
                     | (Inr items, w') \<Rightarrow>
                         (case fetch_dialogs client sm svc limit dialogs w' of
                            (Inl e, w'') \<Rightarrow> (Inl e, w'')
                          | (Inr rest, w'') \<Rightarrow> (Inr (items @ rest), w'')))))"

text \<open>\<open>fetch_unread_messages\<close>; its summarizer is built from the environment.\<close>

definition fetch_unread_messages ::
  "environ \<Rightarrow> service \<Rightarrow> TelegramClient \<Rightarrow> int \<Rightarrow> world \<Rightarrow> (exn + DigestItem list) \<times> world" where
  "fetch_unread_messages env svc client limit w =
     fetch_dialogs client (Summarizer_init env None) svc limit (iter_dialogs client) w"

section \<open>Notification message\<close>

text \<open>\<open>html.escape(s)\<close> with \<open>quote=True\<close>: the five characters \<open>&\<close>, \<open><\<close>, \<open>>\<close>,
  the double and the single quote become entities; the ampersand is replaced first,
  so the result is the character-wise replacement.\<close>

definition escape_char :: "nat \<Rightarrow> pystr" where
  "escape_char c =
     (if c = 38 then ascii ''&amp;''
      else if c = 60 then ascii ''&lt;''
      else if c = 62 then ascii ''&gt;''
      else if c = 34 then ascii ''&quot;''
      else if c = 39 then ascii ''&#x27;''
      else [c])"

definition html_escape :: "pystr \<Rightarrow> pystr" where
  "html_escape s = concat (map escape_char s)"

text \<open>
  \<open>grouped[item.channel_title].append(item)\<close> on a \<open>defaultdict(list)\<close>: a dictionary
  keeps its keys in the order of their first insertion, so it is a list of pairs; a
  new title is added at the end, a known title gets the item appended to its list.
\<close>

fun group_append :: "DigestItem \<Rightarrow> (pystr \<times> DigestItem list) list \<Rightarrow> (pystr \<times> DigestItem list) list" where
  "group_append item [] = [(channel_title item, [item])]"
| "group_append item ((k, v) # g) =
     (if k = channel_title item then (k, v @ [item]) # g else (k, v) # group_append item g)"

definition group_items :: "DigestItem list \<Rightarrow> (pystr \<times> DigestItem list) list" where
  "group_items items = foldl (\<lambda>g item. group_append item g) [] items"

definition empty_digest :: pystr where
  "empty_digest =
     [128237, 32, 50504, 32, 51069, 51008, 32, 52292, 45328, 32, 47700, 49884, 51648, 44032,
      32, 50630, 49845, 45768, 45796, 46]"

definition digest_header :: pystr where
  "digest_header =
     [129534, 32] @ ascii ''<b>'' @
     [50504, 32, 51069, 51008, 32, 52292, 45328, 32, 50836, 50557] @ ascii ''</b>''"

definition heading_line :: "pystr \<Rightarrow> pystr" where
  "heading_line channel = [10, 128204, 32] @ ascii ''<b>'' @ html_escape channel @ ascii ''</b>''"

definition summary_line :: "nat \<Rightarrow> DigestItem \<Rightarrow> pystr" where
  "summary_line idx item = py_str_int (int idx) @ ascii '') '' @ html_escape (summary item)"

definition link_line :: "DigestItem \<Rightarrow> pystr" where
  "link_line item =
     [128279, 32] @ ascii ''<a href=\"'' @ message_link item @
     ascii ''\">'' @ [50896, 47928, 32, 47553, 53356] @ ascii ''</a>''"

definition omitted_note :: "int \<Rightarrow> pystr" where
  "omitted_note n =
     [10, 8230, 50808, 32] @ py_str_int n @
     [44148, 51008, 32] @ ascii ''HTML/JSON'' @
     [32, 54028, 51068, 51012, 32, 54869, 51064, 54616, 49464, 50836, 46]"

text \<open>The lines one group adds: its heading, then two lines per item, numbered
  from 1 (\<open>enumerate(channel_items, start=1)\<close>).\<close>

definition group_lines :: "pystr \<times> DigestItem list \<Rightarrow> pystr list" where
  "group_lines g =
     heading_line (fst g) #
     concat (map (\<lambda>(idx, item). [summary_line idx item, link_line item])
               (enumerate 1 (snd g)))"

text \<open>The list \<open>lines\<close> of \<open>build_digest_message\<close> when it is joined.\<close>

definition digest_lines :: "DigestItem list \<Rightarrow> int \<Rightarrow> pystr list" where
  "digest_lines items max_items =
     (let grouped = group_items (slice_to items max_items);
          lines = [digest_header] @ concat (map group_lines grouped)
      in if int (length items) > max_items
         then lines @ [omitted_note (int (length items) - max_items)]
         else lines)"

definition build_digest_message :: "DigestItem list \<Rightarrow> int \<Rightarrow> pystr" where
  "build_digest_message items max_items =
     (if items = [] then empty_digest else py_join [10] (digest_lines items max_items))"

section \<open>Auxiliary predicates\<close>

text \<open>A text is \<open>spaced\<close> when each of its whitespace characters is a space (32) that
  is followed by a character that is not whitespace, or stands last.\<close>

fun spaced :: "pystr \<Rightarrow> bool" where
  "spaced [] = True"
| "spaced (c # cs) = ((py_isspace c \<longrightarrow> c = 32 \<and> (cs = [] \<or> \<not> py_isspace (hd cs))) \<and> spaced cs)"

text \<open>The number a string of decimal digits denotes, and the digits \<open>0\<close> to \<open>9\<close>.\<close>

definition decimal_value :: "pystr \<Rightarrow> nat" where
  "decimal_value s = foldl (\<lambda>a d. 10 * a + (d - 48)) 0 s"

definition is_digit :: "nat \<Rightarrow> bool" where
  "is_digit c \<longleftrightarrow> 48 \<le> c \<and> c \<le> 57"

text \<open>A service whose every content has a character that is not whitespace.\<close>

definition answers_nonblank :: "service \<Rightarrow> bool" where
  "answers_nonblank svc \<longleftrightarrow> (\<forall>n req c. svc n req = Content c \<longrightarrow> py_strip c \<noteq> [])"

text \<open>An environment with a credential and no other variable; a client with one
  channel, titled \<open>"A"\<close>, with an unread count of 1 and one message, \<open>"hi"\<close>, whose
  attribute \<open>unread\<close> is as given: \<open>None\<close> for a message of Telethon's class,
  \<open>Some True\<close> for a message object that carries the attribute.\<close>

definition env_with_key :: environ where
  "env_with_key = (\<lambda>k. if k = ascii ''OPENAI_API_KEY'' then Some (ascii ''k'') else None)"

definition hi_message :: "bool option \<Rightarrow> Message" where
  "hi_message u =
     \<lparr> msg_id = 5, unread = u, message = Some (ascii ''hi''),
       raw_text = Some (ascii ''hi''), msg_date = ascii ''2024-01-01 00:00'' \<rparr>"

definition hi_dialog :: Dialog where
  "hi_dialog =
     \<lparr> entity = IsChannel \<lparr>id' = 7, username = Some (ascii ''chan'')\<rparr>,
       title = ascii ''A'', unread_count = 1 \<rparr>"

definition one_message_client :: "bool option \<Rightarrow> TelegramClient" where
  "one_message_client u = \<lparr> iter_dialogs = [hi_dialog], iter_messages = (\<lambda>ch n. [hi_message u]) \<rparr>"

definition key_summarizer :: Summarizer where
  "key_summarizer = \<lparr>api_key = Some (ascii ''k''), base_url = [], model = []\<rparr>"

text \<open>A service that answers every request with the same content.\<close>

definition constant_service :: "pystr \<Rightarrow> service" where
  "constant_service c n req = Content c"

text \<open>
  The first-seen order of a sequence: its distinct elements, each at the place of its
  first occurrence. This is the order in which the spec wants the group headings.
\<close>

fun first_seen :: "'a list \<Rightarrow> 'a list" where
  "first_seen [] = []"
| "first_seen (x # xs) = x # first_seen (filter (\<lambda>y. y \<noteq> x) xs)"

text \<open>The items of a sequence that carry a given channel title, in their incoming
  order.\<close>

definition items_titled :: "pystr \<Rightarrow> DigestItem list \<Rightarrow> DigestItem list" where
  "items_titled t items = filter (\<lambda>item. channel_title item = t) items"

text \<open>An item for the examples: its title, channel id, summary and link; the other
  fields do not reach the notification.\<close>

definition demo_item :: "string \<Rightarrow> int \<Rightarrow> string \<Rightarrow> string \<Rightarrow> DigestItem" where
  "demo_item t cid s l =
     \<lparr> channel_title = ascii t, channel_id = cid, message_id = 1, date = [], text' = [],
       summary = ascii s, message_link = ascii l \<rparr>"

text \<open>
  Where the summary of an item comes from, given the summarizer and the service: the
  sentinel when the item's text normalizes to the empty string; otherwise the local
  summary of the normalized text, or, with a credential configured, the stripped
  content of an answer of the service to the request for that text.
\<close>

definition summary_accounted :: "Summarizer \<Rightarrow> service \<Rightarrow> DigestItem \<Rightarrow> bool" where
  "summary_accounted sm svc item \<longleftrightarrow>
     (normalize_text (Some (text' item)) = [] \<and> summary item = no_text_sentinel) \<or>
     (normalize_text (Some (text' item)) \<noteq> [] \<and>
      summary item = summarize_locally (normalize_text (Some (text' item))) 3) \<or>
     (normalize_text (Some (text' item)) \<noteq> [] \<and> truthy (api_key sm) \<and>
      (\<exists>n c. svc n (build_request sm (normalize_text (Some (text' item)))) = Content c \<and>
             summary item = py_strip c))"

section \<open>Properties of the text normalizer\<close>

lemma sub_ws_Nil_iff: "sub_ws s = [] \<longleftrightarrow> s = []"
  by (cases s) auto

lemma hd_sub_ws: "s \<noteq> [] \<Longrightarrow> \<not> py_isspace (hd s) \<Longrightarrow> hd (sub_ws s) = hd s"
  by (cases s) auto

lemma hd_dropWhile_ws: "dropWhile py_isspace cs \<noteq> [] \<Longrightarrow> \<not> py_isspace (hd (dropWhile py_isspace cs))"
  using hd_dropWhile by blast

lemma spaced_sub_ws: "spaced (sub_ws s)"
proof (induction s rule: sub_ws.induct)
  case 1
  show ?case by simp
next
  case (2 c cs)
  show ?case
  proof (cases "py_isspace c")
    case True
    let ?r = "dropWhile py_isspace cs"
    have "sub_ws ?r = [] \<or> \<not> py_isspace (hd (sub_ws ?r))"
    proof (cases "?r = []")
      case True
      then have "sub_ws ?r = []" using sub_ws_Nil_iff by blast
      then show ?thesis ..
    next
      case False
      from hd_dropWhile_ws [OF False] hd_sub_ws [OF False] show ?thesis by simp
    qed
    with True 2 show ?thesis by simp
  next
    case False
    with 2 show ?thesis by simp
  qed
qed

lemma sub_ws_spaced: "spaced s \<Longrightarrow> sub_ws s = s"
proof (induction s)
  case Nil
  show ?case by simp
next
  case (Cons c cs)
  show ?case
  proof (cases "py_isspace c")
    case True
    with Cons.prems have c: "c = 32" and r: "cs = [] \<or> \<not> py_isspace (hd cs)" by auto
    from r have "dropWhile py_isspace cs = cs" by (cases cs) auto
    with True c Cons show ?thesis by simp
  next
    case False
    with Cons show ?thesis by simp
  qed
qed

lemma last_sub_ws: "s \<noteq> [] \<Longrightarrow> \<not> py_isspace (last s) \<Longrightarrow> \<not> py_isspace (last (sub_ws s))"
proof (induction s rule: sub_ws.induct)
  case 1
  then show ?case by simp
next
  case (2 c cs)
  show ?case
  proof (cases "py_isspace c")
    case True
    let ?r = "dropWhile py_isspace cs"
    from True "2.prems" have cs: "cs \<noteq> []" by auto
    with "2.prems" have l: "\<not> py_isspace (last cs)" by simp
    have ne: "?r \<noteq> []"
    proof
      assume "?r = []"
      then have "\<forall>x\<in>set cs. py_isspace x" by (simp add: dropWhile_eq_Nil_conv)
      with cs l show False using last_in_set by blast
    qed
    have "last ?r = last cs"
      by (metis ne append_Nil2 last_appendR takeWhile_dropWhile_id)
    then have "\<not> py_isspace (last (sub_ws ?r))" using "2.IH"(1) [OF True ne] l by simp
    moreover have "sub_ws ?r \<noteq> []" using ne sub_ws_Nil_iff by blast
    ultimately show ?thesis using True by simp
  next
    case False
    show ?thesis
    proof (cases "cs = []")
      case True
      with False show ?thesis by simp
    next
      case ne: False
      with False "2.prems" "2.IH"(2) show ?thesis by (simp add: sub_ws_Nil_iff)
    qed
  qed
qed

lemma strip_by_ends: "strip_by p s \<noteq> [] \<Longrightarrow> \<not> p (hd (strip_by p s)) \<and> \<not> p (last (strip_by p s))"
proof -
  assume ne: "strip_by p s \<noteq> []"
  let ?l = "dropWhile p s"
  let ?r = "dropWhile p (rev ?l)"
  from ne have r: "?r \<noteq> []" by (simp add: strip_by_def rstrip_by_def lstrip_by_def)
  then have l: "?l \<noteq> []" by (cases "?l") auto
  have "\<not> p (hd ?r)" using r hd_dropWhile by blast
  then have a: "\<not> p (last (strip_by p s))"
    using r by (simp add: strip_by_def rstrip_by_def lstrip_by_def last_rev)
  have hl: "\<not> p (hd ?l)" using l hd_dropWhile by blast
  obtain u where u: "rev ?l = takeWhile p (rev ?l) @ ?r" by simp
  have "?l = rev ?r @ rev (takeWhile p (rev ?l))"
    by (metis rev_append rev_rev_ident takeWhile_dropWhile_id)
  then have "hd ?l = hd (rev ?r)" using r by (metis hd_append2 rev_is_Nil_conv)
  with hl have "\<not> p (hd (strip_by p s))"
    by (simp add: strip_by_def rstrip_by_def lstrip_by_def)
  with a show ?thesis by simp
qed

lemma strip_by_id: "s \<noteq> [] \<Longrightarrow> \<not> p (hd s) \<Longrightarrow> \<not> p (last s) \<Longrightarrow> strip_by p s = s"
proof -
  assume ne: "s \<noteq> []" and h: "\<not> p (hd s)" and l: "\<not> p (last s)"
  from ne h have a: "dropWhile p s = s" by (cases s) auto
  from ne l have "\<not> p (hd (rev s))" by (simp add: hd_rev)
  with ne have "dropWhile p (rev s) = rev s" by (cases "rev s") auto
  with a show ?thesis by (simp add: strip_by_def rstrip_by_def lstrip_by_def)
qed

lemma spaced_nth: "spaced s \<Longrightarrow> Suc i < length s \<Longrightarrow> \<not> (py_isspace (s ! i) \<and> py_isspace (s ! Suc i))"
proof (induction s arbitrary: i)
  case Nil
  then show ?case by simp
next
  case (Cons c cs)
  show ?case
  proof (cases i)
    case 0
    with Cons.prems show ?thesis by (cases cs) auto
  next
    case (Suc j)
    with Cons show ?thesis by simp
  qed
qed

lemma normalize_text_ends:
  assumes "normalize_text x \<noteq> []"
  shows "\<not> py_isspace (hd (normalize_text x))" and "\<not> py_isspace (last (normalize_text x))"
proof -
  let ?t = "py_strip (case x of None \<Rightarrow> [] | Some s \<Rightarrow> s)"
  from assms have ne: "?t \<noteq> []" by (auto simp: normalize_text_def)
  then have e: "\<not> py_isspace (hd ?t) \<and> \<not> py_isspace (last ?t)"
    unfolding py_strip_def by (rule strip_by_ends)
  from ne e show "\<not> py_isspace (hd (normalize_text x))"
    by (simp add: normalize_text_def hd_sub_ws)
  from last_sub_ws [OF ne] e show "\<not> py_isspace (last (normalize_text x))"
    by (simp add: normalize_text_def)
qed

lemma normalize_text_idem: "normalize_text (Some (normalize_text x)) = normalize_text x"
proof (cases "normalize_text x = []")
  case True
  then show ?thesis
    by (simp add: normalize_text_def py_strip_def strip_by_def rstrip_by_def lstrip_by_def)
next
  case False
  from normalize_text_ends [OF False] False
  have "py_strip (normalize_text x) = normalize_text x"
    unfolding py_strip_def by (simp add: strip_by_id)
  moreover have "spaced (normalize_text x)"
    unfolding normalize_text_def by (rule spaced_sub_ws)
  ultimately show ?thesis
    using sub_ws_spaced [of "normalize_text x"]
    by (simp add: normalize_text_def [of "Some (normalize_text x)"])
qed

text \<open>
  Claim C6. For every input \<open>x\<close> (a string or \<open>None\<close>), \<open>normalize_text x\<close> has no two
  consecutive whitespace characters and, when it is not empty, neither starts nor ends
  with a whitespace character; and normalizing it again changes nothing.
\<close>

theorem normalize_text_normal_form:
  "(\<forall>i. Suc i < length (normalize_text x) \<longrightarrow>
      \<not> (py_isspace (normalize_text x ! i) \<and> py_isspace (normalize_text x ! Suc i))) \<and>
   (normalize_text x \<noteq> [] \<longrightarrow>
      \<not> py_isspace (hd (normalize_text x)) \<and> \<not> py_isspace (last (normalize_text x))) \<and>
   normalize_text (Some (normalize_text x)) = normalize_text x"
proof (intro conjI allI impI)
  fix i
  assume "Suc i < length (normalize_text x)"
  moreover have "spaced (normalize_text x)"
    unfolding normalize_text_def by (rule spaced_sub_ws)
  ultimately show "\<not> (py_isspace (normalize_text x ! i) \<and> py_isspace (normalize_text x ! Suc i))"
    by (rule spaced_nth [rotated])
next
  assume "normalize_text x \<noteq> []"
  then show "\<not> py_isspace (hd (normalize_text x))" by (rule normalize_text_ends)
next
  assume "normalize_text x \<noteq> []"
  then show "\<not> py_isspace (last (normalize_text x))" by (rule normalize_text_ends)
next
  show "normalize_text (Some (normalize_text x)) = normalize_text x"
    by (rule normalize_text_idem)
qed

text \<open>The claim at the text \<open>" a\t\nb "\<close>, whose normal form is \<open>"a b"\<close>.\<close>

theorem normalize_text_normal_form_witness:
  "normalize_text (Some [32, 97, 9, 10, 98, 32]) = [97, 32, 98] \<and>
   Suc 1 < length (normalize_text (Some [32, 97, 9, 10, 98, 32])) \<and>
   \<not> (py_isspace (normalize_text (Some [32, 97, 9, 10, 98, 32]) ! 1) \<and>
      py_isspace (normalize_text (Some [32, 97, 9, 10, 98, 32]) ! Suc 1)) \<and>
   \<not> py_isspace (hd (normalize_text (Some [32, 97, 9, 10, 98, 32]))) \<and>
   \<not> py_isspace (last (normalize_text (Some [32, 97, 9, 10, 98, 32]))) \<and>
   normalize_text (Some (normalize_text (Some [32, 97, 9, 10, 98, 32]))) = [97, 32, 98]"
proof -
  have e: "normalize_text (Some [32, 97, 9, 10, 98, 32]) = [97, 32, 98]"
    by (simp add: normalize_text_def py_strip_def strip_by_def rstrip_by_def lstrip_by_def
        py_isspace_def)
  have l: "Suc 1 < length (normalize_text (Some [32, 97, 9, 10, 98, 32]))"
    by (simp add: e)
  from normalize_text_normal_form [of "Some [32, 97, 9, 10, 98, 32]"] l e
  show ?thesis by force
qed

section \<open>Message links\<close>

lemma nat_digits_decimal: "decimal_value (nat_digits n) = n \<and> list_all is_digit (nat_digits n)"
proof (induction n rule: nat_digits.induct)
  case (1 n)
  show ?case
  proof (cases "n < 10")
    case True
    then show ?thesis by (simp add: nat_digits.simps [of n] decimal_value_def is_digit_def)
  next
    case False
    with 1 have ih: "decimal_value (nat_digits (n div 10)) = n div 10"
      and d: "list_all is_digit (nat_digits (n div 10))" by simp_all
    have "n mod 10 < 10" by simp
    then have m: "is_digit (48 + n mod 10)" by (simp add: is_digit_def)
    from False ih have "decimal_value (nat_digits n) = n"
      by (simp add: nat_digits.simps [of n] decimal_value_def)
    moreover from False d m have "list_all is_digit (nat_digits n)"
      by (simp add: nat_digits.simps [of n])
    ultimately show ?thesis ..
  qed
qed

lemma startswith_iff: "startswith s pre \<longleftrightarrow> (\<exists>rest. s = pre @ rest)"
proof
  assume "startswith s pre"
  then have "s = pre @ drop (length pre) s"
    unfolding startswith_def by (metis append_take_drop_id)
  then show "\<exists>rest. s = pre @ rest" ..
next
  assume "\<exists>rest. s = pre @ rest"
  then show "startswith s pre" by (auto simp: startswith_def)
qed

text \<open>
  Claim C10. For a channel with a (non-empty) username the link is
  \<open>https://t.me/<username>/<message_id>\<close>. For a channel without one it is
  \<open>https://t.me/c/<internal>/<message_id>\<close>, where \<open><internal>\<close> is the decimal form of
  the absolute channel id without its first three characters when these are \<open>100\<close>,
  and the whole decimal form otherwise. The decimal form consists of digits and
  denotes the absolute id.
\<close>

theorem build_message_link_shape:
  "(\<forall>u. username ch = Some u \<and> u \<noteq> [] \<longrightarrow>
      build_message_link ch mid = ascii ''https://t.me/'' @ u @ ascii ''/'' @ py_str_int mid) \<and>
   (username ch = None \<or> username ch = Some [] \<longrightarrow>
      (\<forall>rest. py_str_int \<bar>id' ch\<bar> = ascii ''100'' @ rest \<longrightarrow>
         build_message_link ch mid = ascii ''https://t.me/c/'' @ rest @ ascii ''/'' @ py_str_int mid) \<and>
      ((\<nexists>rest. py_str_int \<bar>id' ch\<bar> = ascii ''100'' @ rest) \<longrightarrow>
         build_message_link ch mid =
           ascii ''https://t.me/c/'' @ py_str_int \<bar>id' ch\<bar> @ ascii ''/'' @ py_str_int mid)) \<and>
   decimal_value (py_str_int \<bar>id' ch\<bar>) = nat \<bar>id' ch\<bar> \<and>
   list_all is_digit (py_str_int \<bar>id' ch\<bar>)"
proof (intro conjI allI impI)
  fix u
  assume "username ch = Some u \<and> u \<noteq> []"
  then show "build_message_link ch mid = ascii ''https://t.me/'' @ u @ ascii ''/'' @ py_str_int mid"
    by (simp add: build_message_link_def truthy_def)
next
  fix rest
  assume n: "username ch = None \<or> username ch = Some []"
    and r: "py_str_int \<bar>id' ch\<bar> = ascii ''100'' @ rest"
  from r have "startswith (py_str_int \<bar>id' ch\<bar>) (ascii ''100'')"
    unfolding startswith_iff by blast
  moreover from r have "drop 3 (py_str_int \<bar>id' ch\<bar>) = rest" by (simp add: ascii_def)
  moreover from n have "\<not> truthy (username ch)" by (auto simp: truthy_def)
  ultimately show "build_message_link ch mid = ascii ''https://t.me/c/'' @ rest @ ascii ''/'' @ py_str_int mid"
    by (simp add: build_message_link_def Let_def)
next
  assume n: "username ch = None \<or> username ch = Some []"
    and r: "\<nexists>rest. py_str_int \<bar>id' ch\<bar> = ascii ''100'' @ rest"
  from r have "\<not> startswith (py_str_int \<bar>id' ch\<bar>) (ascii ''100'')"
    unfolding startswith_iff by blast
  moreover from n have "\<not> truthy (username ch)" by (auto simp: truthy_def)
  ultimately show "build_message_link ch mid =
           ascii ''https://t.me/c/'' @ py_str_int \<bar>id' ch\<bar> @ ascii ''/'' @ py_str_int mid"
    by (simp add: build_message_link_def Let_def)
next
  show "decimal_value (py_str_int \<bar>id' ch\<bar>) = nat \<bar>id' ch\<bar>"
    using nat_digits_decimal [of "nat \<bar>id' ch\<bar>"] by (simp add: py_str_int_def)
next
  show "list_all is_digit (py_str_int \<bar>id' ch\<bar>)"
    using nat_digits_decimal [of "nat \<bar>id' ch\<bar>"] by (simp add: py_str_int_def)
qed

text \<open>The claim at a public channel, at a private supergroup (id \<open>-1001234\<close>) and
  at a channel whose id does not start with \<open>100\<close> and whose username is empty.\<close>

theorem build_message_link_shape_witness:
  "build_message_link \<lparr>id' = - 1001234, username = Some (ascii ''chan'')\<rparr> 42 = ascii ''https://t.me/chan/42'' \<and>
   build_message_link \<lparr>id' = - 1001234, username = None\<rparr> 42 = ascii ''https://t.me/c/1234/42'' \<and>
   build_message_link \<lparr>id' = 2005, username = Some []\<rparr> (- 7) = ascii ''https://t.me/c/2005/-7'' \<and>
   decimal_value (py_str_int \<bar>- 1001234\<bar>) = 1001234"
proof -
  have a: "py_str_int \<bar>- 1001234\<bar> = ascii ''100'' @ ascii ''1234''"
    by (simp add: py_str_int_def nat_digits.simps ascii_def)
  have b: "\<nexists>rest. py_str_int \<bar>2005\<bar> = ascii ''100'' @ rest"
    by (simp add: py_str_int_def nat_digits.simps ascii_def)
  have c: "py_str_int 42 = ascii ''42''" "py_str_int (- 7) = ascii ''-7''" "py_str_int \<bar>2005\<bar> = ascii ''2005''"
    by (simp_all add: py_str_int_def nat_digits.simps ascii_def)
  from build_message_link_shape [of "\<lparr>id' = - 1001234, username = Some (ascii ''chan'')\<rparr>" 42]
    build_message_link_shape [of "\<lparr>id' = - 1001234, username = None\<rparr>" 42]
    build_message_link_shape [of "\<lparr>id' = 2005, username = Some []\<rparr>" "- 7"]
    a b c
  show ?thesis by (simp add: ascii_def)
qed

section \<open>Properties of the summarizer\<close>

lemma normalize_text_blank: "list_all py_isspace s \<Longrightarrow> normalize_text (Some s) = []"
proof -
  assume "list_all py_isspace s"
  then have d: "dropWhile py_isspace s = []" by (simp add: list_all_iff)
  have "py_strip s = []"
    unfolding py_strip_def strip_by_def rstrip_by_def lstrip_by_def d by simp
  then show ?thesis by (simp add: normalize_text_def)
qed

lemma summarize_remote_calls:
  "summarize_remote sm svc t w = (r, w') \<Longrightarrow>
     w' = w\<lparr>remote_calls := Suc (remote_calls w)\<rparr>"
  by (auto simp: summarize_remote_def Let_def split: reply.splits)

text \<open>
  Claim C2. When the text normalizes to the empty string, \<open>summarize\<close> returns the
  sentinel and leaves the world as it was: no request is sent, whatever the
  credential and the service are. \<open>None\<close>, the empty string and every string of
  whitespace only normalize to the empty string.
\<close>

theorem summarize_empty_text:
  "(normalize_text text = [] \<longrightarrow> summarize sm svc text w = (Inr no_text_sentinel, w)) \<and>
   normalize_text None = [] \<and> normalize_text (Some []) = [] \<and>
   (list_all py_isspace s \<longrightarrow> summarize sm svc (Some s) w = (Inr no_text_sentinel, w))"
proof (intro conjI impI)
  assume "normalize_text text = []"
  then show "summarize sm svc text w = (Inr no_text_sentinel, w)"
    by (simp add: summarize_def)
next
  show "normalize_text None = []"
    by (simp add: normalize_text_def py_strip_def strip_by_def rstrip_by_def lstrip_by_def)
next
  show "normalize_text (Some []) = []"
    by (simp add: normalize_text_def py_strip_def strip_by_def rstrip_by_def lstrip_by_def)
next
  assume "list_all py_isspace s"
  then have "normalize_text (Some s) = []" by (rule normalize_text_blank)
  then show "summarize sm svc (Some s) w = (Inr no_text_sentinel, w)"
    by (simp add: summarize_def)
qed

text \<open>The claim at the text \<open>" \n\t"\<close>, with a credential configured and a service
  that would answer.\<close>

theorem summarize_empty_text_witness:
  "normalize_text (Some [32, 10, 9]) = [] \<and> list_all py_isspace [32, 10, 9] \<and>
   summarize \<lparr>api_key = Some (ascii ''k''), base_url = [], model = []\<rparr>
     (\<lambda>n r. Content (ascii ''V'')) (Some [32, 10, 9]) \<lparr>remote_calls = 0, warnings = []\<rparr>
   = (Inr no_text_sentinel, \<lparr>remote_calls = 0, warnings = []\<rparr>)"
proof -
  have a: "list_all py_isspace [32, 10, 9]" by (simp add: py_isspace_def)
  have b: "normalize_text (Some [32, 10, 9]) = []" using a by (rule normalize_text_blank)
  from summarize_empty_text [of "Some [32, 10, 9]"
      "\<lparr>api_key = Some (ascii ''k''), base_url = [], model = []\<rparr>"
      "\<lambda>n r. Content (ascii ''V'')" "\<lparr>remote_calls = 0, warnings = []\<rparr>" "[32, 10, 9]"] a b
  show ?thesis by simp
qed

text \<open>
  Claim C8. With a credential configured and a text that does not normalize to the
  empty string, a remote call that succeeds with the value \<open>V\<close> makes \<open>summarize\<close>
  return exactly \<open>V\<close>, whatever \<open>V\<close> is; the one request is the only effect.
\<close>

theorem summarize_remote_verbatim:
  "normalize_text text \<noteq> [] \<and> truthy (api_key sm) \<and>
   summarize_remote sm svc (normalize_text text) w = (Inr V, w') \<longrightarrow>
     summarize sm svc text w = (Inr V, w') \<and>
     w' = w\<lparr>remote_calls := Suc (remote_calls w)\<rparr>"
proof (intro impI)
  assume h: "normalize_text text \<noteq> [] \<and> truthy (api_key sm) \<and>
     summarize_remote sm svc (normalize_text text) w = (Inr V, w')"
  then have "summarize sm svc text w = (Inr V, w')" by (simp add: summarize_def)
  moreover from h have "w' = w\<lparr>remote_calls := Suc (remote_calls w)\<rparr>"
    by (blast dest: summarize_remote_calls)
  ultimately show "summarize sm svc text w = (Inr V, w') \<and>
     w' = w\<lparr>remote_calls := Suc (remote_calls w)\<rparr>" ..
qed

text \<open>The claim at the text \<open>"hi"\<close> and a service whose content is \<open>"<V>"\<close>: no
  bullet, no escaping and no cut is applied to it.\<close>

theorem summarize_remote_verbatim_witness:
  "normalize_text (Some (ascii ''hi'')) \<noteq> [] \<and>
   truthy (api_key \<lparr>api_key = Some (ascii ''k''), base_url = [], model = []\<rparr>) \<and>
   summarize_remote \<lparr>api_key = Some (ascii ''k''), base_url = [], model = []\<rparr>
     (\<lambda>n r. Content (ascii ''<V>'')) (normalize_text (Some (ascii ''hi'')))
     \<lparr>remote_calls = 0, warnings = []\<rparr>
   = (Inr (ascii ''<V>''), \<lparr>remote_calls = 1, warnings = []\<rparr>) \<and>
   summarize \<lparr>api_key = Some (ascii ''k''), base_url = [], model = []\<rparr>
     (\<lambda>n r. Content (ascii ''<V>'')) (Some (ascii ''hi''))
     \<lparr>remote_calls = 0, warnings = []\<rparr>
   = (Inr (ascii ''<V>''), \<lparr>remote_calls = 1, warnings = []\<rparr>)"
proof -
  have a: "normalize_text (Some (ascii ''hi'')) \<noteq> []"
    by (simp add: normalize_text_def py_strip_def strip_by_def rstrip_by_def lstrip_by_def
        py_isspace_def ascii_def)
  have b: "truthy (api_key \<lparr>api_key = Some (ascii ''k''), base_url = [], model = []\<rparr>)"
    by (simp add: truthy_def ascii_def)
  have c: "summarize_remote \<lparr>api_key = Some (ascii ''k''), base_url = [], model = []\<rparr>
     (\<lambda>n r. Content (ascii ''<V>'')) (normalize_text (Some (ascii ''hi'')))
     \<lparr>remote_calls = 0, warnings = []\<rparr>
   = (Inr (ascii ''<V>''), \<lparr>remote_calls = 1, warnings = []\<rparr>)"
    by (simp add: summarize_remote_def py_strip_def strip_by_def rstrip_by_def lstrip_by_def
        py_isspace_def ascii_def)
  from summarize_remote_verbatim [of "Some (ascii ''hi'')"
      "\<lparr>api_key = Some (ascii ''k''), base_url = [], model = []\<rparr>"
      "\<lambda>n r. Content (ascii ''<V>'')" "\<lparr>remote_calls = 0, warnings = []\<rparr>"
      "ascii ''<V>''" "\<lparr>remote_calls = 1, warnings = []\<rparr>"] a b c
  show ?thesis by simp
qed

text \<open>
  Claim C1. \<open>summarize\<close> always returns a summary, never an error, and sends at most one
  request. When the text does not normalize to the empty string and the remote call
  raises (whatever the exception), the summary is the local summary of the
  normalized text; the request was sent once and the cause logged. Without a
  credential the summary is the local one and no request is sent.
\<close>

theorem summarize_never_fails:
  "(\<exists>s w'. summarize sm svc text w = (Inr s, w') \<and>
       remote_calls w' \<le> Suc (remote_calls w)) \<and>
   (normalize_text text \<noteq> [] \<and> truthy (api_key sm) \<and>
    svc (remote_calls w) (build_request sm (normalize_text text)) = Raised e \<longrightarrow>
      summarize sm svc text w =
        (Inr (summarize_locally (normalize_text text) 3),
         w\<lparr>remote_calls := Suc (remote_calls w), warnings := warnings w @ [e]\<rparr>)) \<and>
   (normalize_text text \<noteq> [] \<and> \<not> truthy (api_key sm) \<longrightarrow>
      summarize sm svc text w = (Inr (summarize_locally (normalize_text text) 3), w))"
proof (intro conjI impI)
  show "\<exists>s w'. summarize sm svc text w = (Inr s, w') \<and> remote_calls w' \<le> Suc (remote_calls w)"
    by (cases "svc (remote_calls w) (build_request sm (normalize_text text))")
       (simp_all add: summarize_def summarize_remote_def Let_def)
next
  assume "normalize_text text \<noteq> [] \<and> truthy (api_key sm) \<and>
    svc (remote_calls w) (build_request sm (normalize_text text)) = Raised e"
  then show "summarize sm svc text w =
        (Inr (summarize_locally (normalize_text text) 3),
         w\<lparr>remote_calls := Suc (remote_calls w), warnings := warnings w @ [e]\<rparr>)"
    by (simp add: summarize_def summarize_remote_def Let_def)
next
  assume "normalize_text text \<noteq> [] \<and> \<not> truthy (api_key sm)"
  then show "summarize sm svc text w = (Inr (summarize_locally (normalize_text text) 3), w)"
    by (simp add: summarize_def)
qed

text \<open>The claim at the text \<open>" hi "\<close> and a service that answers with an error
  status: the summary is the local one, \<open>"\<bullet> hi"\<close>.\<close>

theorem summarize_never_fails_witness:
  "normalize_text (Some (ascii '' hi '')) \<noteq> [] \<and>
   truthy (api_key \<lparr>api_key = Some (ascii ''k''), base_url = [], model = []\<rparr>) \<and>
   summarize_locally (normalize_text (Some (ascii '' hi ''))) 3 = [8226, 32, 104, 105] \<and>
   summarize \<lparr>api_key = Some (ascii ''k''), base_url = [], model = []\<rparr>
     (\<lambda>n r. Raised HTTPError) (Some (ascii '' hi ''))
     \<lparr>remote_calls = 0, warnings = []\<rparr>
   = (Inr [8226, 32, 104, 105], \<lparr>remote_calls = 1, warnings = [HTTPError]\<rparr>)"
proof -
  have n: "normalize_text (Some (ascii '' hi '')) = [104, 105]"
    by (simp add: normalize_text_def py_strip_def strip_by_def rstrip_by_def lstrip_by_def
        py_isspace_def ascii_def)
  have l: "summarize_locally [104, 105] 3 = [8226, 32, 104, 105]"
    by (simp add: summarize_locally_def re_split_def py_strip_def strip_by_def rstrip_by_def
        lstrip_by_def py_isspace_def is_bullet_char_def slice_to_def bullet_marker_def)
  have b: "truthy (api_key \<lparr>api_key = Some (ascii ''k''), base_url = [], model = []\<rparr>)"
    by (simp add: truthy_def ascii_def)
  from summarize_never_fails [of "\<lparr>api_key = Some (ascii ''k''), base_url = [], model = []\<rparr>"
      "\<lambda>n r. Raised HTTPError" "Some (ascii '' hi '')"
      "\<lparr>remote_calls = 0, warnings = []\<rparr>" HTTPError] n l b
  show ?thesis by simp
qed

section \<open>Properties of the local summarizer\<close>

lemma split_on_not_Nil: "split_on c s \<noteq> []"
  by (induction s) (auto split: list.splits)

lemma split_on_no_sep: "c \<notin> set s \<Longrightarrow> split_on c s = [s]"
  by (induction s) auto

lemma split_on_append_sep:
  "c \<notin> set x \<Longrightarrow> split_on c (x @ c # rest) = x # split_on c rest"
  by (induction x) auto

lemma py_lines_join:
  "xs \<noteq> [] \<Longrightarrow> \<forall>x\<in>set xs. 10 \<notin> set x \<Longrightarrow> py_lines (py_join [10] xs) = xs"
proof (induction xs rule: induct_list012)
  case 1
  then show ?case by simp
next
  case (2 x)
  then show ?case by (simp add: py_lines_def split_on_no_sep)
next
  case (3 x y ys)
  then have "py_lines (py_join [10] (y # ys)) = y # ys" by simp
  moreover from "3.prems" have "10 \<notin> set x" by simp
  ultimately show ?case by (simp add: py_lines_def split_on_append_sep)
qed

lemma re_split_from_no_newline:
  "10 \<notin> set acc \<Longrightarrow> \<forall>chunk\<in>set (re_split_from prev acc s). 10 \<notin> set chunk"
proof (induction prev acc s rule: re_split_from.induct)
  case (1 prev acc)
  then show ?case by simp
next
  case (2 prev acc c cs)
  let ?A = "(case prev of None \<Rightarrow> False | Some p \<Rightarrow> is_sentence_end p) \<and> py_isspace c"
  show ?case
  proof (cases ?A)
    case True
    then have eq: "re_split_from prev acc (c # cs) =
        acc # re_split_from (Some (last (c # takeWhile py_isspace cs))) [] (dropWhile py_isspace cs)"
      by (simp only: re_split_from.simps if_True simp_thms)
    from "2.IH"(1) [OF True] have "\<forall>chunk\<in>set (re_split_from (Some (last (c # takeWhile py_isspace cs))) []
                   (dropWhile py_isspace cs)). 10 \<notin> set chunk" by simp
    with "2.prems" show ?thesis unfolding eq by simp
  next
    case False
    show ?thesis
    proof (cases "c = 10")
      case True
      from False True have eq: "re_split_from prev acc (c # cs) =
          acc # re_split_from (Some 10) [] (dropWhile (\<lambda>x. x = 10) cs)"
        by (simp only: re_split_from.simps if_False if_True simp_thms)
      from "2.IH"(2) [OF False True]
      have "\<forall>chunk\<in>set (re_split_from (Some 10) [] (dropWhile (\<lambda>x. x = 10) cs)). 10 \<notin> set chunk"
        by simp
      with "2.prems" show ?thesis unfolding eq by simp
    next
      case ne: False
      from False ne have eq: "re_split_from prev acc (c # cs) = re_split_from (Some c) (acc @ [c]) cs"
        by (simp only: re_split_from.simps if_False simp_thms)
      from "2.prems" ne have "10 \<notin> set (acc @ [c])" by simp
      from "2.IH"(3) [OF False ne this] show ?thesis unfolding eq .
    qed
  qed
qed

lemma set_strip_by: "set (strip_by p s) \<subseteq> set s"
proof -
  have "set (dropWhile p (rev (dropWhile p s))) \<subseteq> set (rev (dropWhile p s))"
    by (rule set_dropWhileD [THEN subsetI])
  also have "\<dots> \<subseteq> set s" using set_dropWhileD [of _ p s] by auto
  finally show ?thesis by (simp add: strip_by_def rstrip_by_def lstrip_by_def)
qed

lemma spaced_no_newline: "spaced s \<Longrightarrow> 10 \<notin> set s"
  by (induction s) (auto simp: py_isspace_def)

lemma normalize_text_no_newline: "10 \<notin> set (normalize_text x)"
  unfolding normalize_text_def by (rule spaced_no_newline [OF spaced_sub_ws])

lemma slice_to_bounds:
  assumes "1 \<le> m" and "xs \<noteq> []"
  shows "slice_to xs m \<noteq> []" and "int (length (slice_to xs m)) \<le> m"
    and "set (slice_to xs m) \<subseteq> set xs"
proof -
  from assms have e: "slice_to xs m = take (nat m) xs" by (simp add: slice_to_def)
  from assms show "slice_to xs m \<noteq> []" unfolding e by (cases xs) auto
  from assms show "int (length (slice_to xs m)) \<le> m" unfolding e by simp
  show "set (slice_to xs m) \<subseteq> set xs" unfolding e by (rule set_take_subset)
qed

text \<open>The list of fragments \<open>summarize_locally\<close> selects.\<close>

lemma summarize_locally_lines:
  assumes "10 \<notin> set text" and "1 \<le> m"
  shows "\<exists>sel. sel \<noteq> [] \<and> int (length sel) \<le> m \<and> (\<forall>s\<in>set sel. 10 \<notin> set s) \<and>
           py_lines (summarize_locally text m) = map (\<lambda>s. bullet_marker @ take 220 s) sel"
proof -
  define filtered0 where "filtered0 = map (strip_by is_bullet_char)
                       (filter (\<lambda>chunk. length (py_strip chunk) > 15) (re_split text))"
  define filtered where "filtered = (if filtered0 = [] then [take 240 text] else filtered0)"
  define sel where "sel = slice_to filtered m"
  have out: "summarize_locally text m = py_join [10] (map (\<lambda>s. bullet_marker @ take 220 s) sel)"
    by (simp add: summarize_locally_def Let_def sel_def filtered_def filtered0_def)
  have chunks: "\<forall>chunk\<in>set (re_split text). 10 \<notin> set chunk"
    unfolding re_split_def by (rule re_split_from_no_newline) simp
  have f0: "\<forall>s\<in>set filtered0. 10 \<notin> set s"
    unfolding filtered0_def using chunks set_strip_by [of is_bullet_char] by auto
  have f: "\<forall>s\<in>set filtered. 10 \<notin> set s"
    unfolding filtered_def using f0 assms(1) by (auto dest: in_set_takeD)
  have fne: "filtered \<noteq> []" by (simp add: filtered_def)
  from slice_to_bounds [OF assms(2) fne]
  have s1: "sel \<noteq> []" and s2: "int (length sel) \<le> m" and s3: "set sel \<subseteq> set filtered"
    by (simp_all add: sel_def)
  from s3 f have s4: "\<forall>s\<in>set sel. 10 \<notin> set s" by blast
  have "\<forall>l\<in>set (map (\<lambda>s. bullet_marker @ take 220 s) sel). 10 \<notin> set l"
    using s4 by (auto simp: bullet_marker_def dest: in_set_takeD)
  with s1 have "py_lines (summarize_locally text m) = map (\<lambda>s. bullet_marker @ take 220 s) sel"
    unfolding out by (intro py_lines_join) simp_all
  with s1 s2 s4 show ?thesis by blast
qed

lemma summarize_locally_shape:
  assumes "10 \<notin> set text" and "1 \<le> m"
  shows "summarize_locally text m \<noteq> []"
    and "\<forall>l\<in>set (py_lines (summarize_locally text m)). take 2 l = bullet_marker \<and> length l \<le> 222"
    and "py_lines (summarize_locally text m) \<noteq> []"
    and "int (length (py_lines (summarize_locally text m))) \<le> m"
proof -
  from summarize_locally_lines [OF assms] obtain sel where
    s1: "sel \<noteq> []" and s2: "int (length sel) \<le> m"
    and l: "py_lines (summarize_locally text m) = map (\<lambda>s. bullet_marker @ take 220 s) sel"
    by blast
  show b: "\<forall>l\<in>set (py_lines (summarize_locally text m)). take 2 l = bullet_marker \<and> length l \<le> 222"
    unfolding l by (auto simp: bullet_marker_def)
  show "py_lines (summarize_locally text m) \<noteq> []" unfolding l using s1 by simp
  show "int (length (py_lines (summarize_locally text m))) \<le> m" unfolding l using s2 by simp
  show "summarize_locally text m \<noteq> []"
  proof
    assume "summarize_locally text m = []"
    then have "py_lines (summarize_locally text m) = [[]]" by (simp add: py_lines_def)
    with b show False by (simp add: bullet_marker_def)
  qed
qed



section \<open>Summaries of the collected items\<close>

lemma summarize_cases:
  "\<exists>s w'. summarize sm svc text w = (Inr s, w') \<and>
     ((normalize_text text = [] \<and> s = no_text_sentinel) \<or>
      (normalize_text text \<noteq> [] \<and> s = summarize_locally (normalize_text text) 3) \<or>
      (normalize_text text \<noteq> [] \<and> truthy (api_key sm) \<and>
       (\<exists>c. svc (remote_calls w) (build_request sm (normalize_text text)) = Content c \<and>
            s = py_strip c)))"
  by (cases "svc (remote_calls w) (build_request sm (normalize_text text))")
     (simp_all add: summarize_def summarize_remote_def Let_def)

lemma summarize_locally_default_nonempty:
  "normalize_text text \<noteq> [] \<Longrightarrow> summarize_locally (normalize_text text) 3 \<noteq> []"
  using summarize_locally_shape(1) [of "normalize_text text" 3] normalize_text_no_newline [of "text"]
  by simp

lemma summarize_nonempty:
  assumes "\<not> truthy (api_key sm) \<or> answers_nonblank svc"
    and "summarize sm svc text w = (Inr s, w')"
  shows "s \<noteq> []"
proof -
  from summarize_cases [of sm svc "text" w] assms(2)
  have c: "(normalize_text text = [] \<and> s = no_text_sentinel) \<or>
      (normalize_text text \<noteq> [] \<and> s = summarize_locally (normalize_text text) 3) \<or>
      (normalize_text text \<noteq> [] \<and> truthy (api_key sm) \<and>
       (\<exists>c. svc (remote_calls w) (build_request sm (normalize_text text)) = Content c \<and>
            s = py_strip c))" by simp
  then show ?thesis
  proof (elim disjE conjE exE)
    assume "s = no_text_sentinel"
    then show ?thesis by (simp add: no_text_sentinel_def)
  next
    assume "normalize_text text \<noteq> []" "s = summarize_locally (normalize_text text) 3"
    then show ?thesis by (simp add: summarize_locally_default_nonempty)
  next
    fix c
    assume "truthy (api_key sm)"
      "svc (remote_calls w) (build_request sm (normalize_text text)) = Content c"
      "s = py_strip c"
    with assms(1) show ?thesis by (auto simp: answers_nonblank_def)
  qed
qed

lemma summary_accounted_nonempty:
  assumes "summary_accounted sm svc item" and "\<not> truthy (api_key sm) \<or> answers_nonblank svc"
  shows "summary item \<noteq> []"
proof -
  from assms(1) show ?thesis unfolding summary_accounted_def
  proof (elim disjE conjE exE)
    assume "summary item = no_text_sentinel"
    then show ?thesis by (simp add: no_text_sentinel_def)
  next
    assume "normalize_text (Some (text' item)) \<noteq> []"
      "summary item = summarize_locally (normalize_text (Some (text' item))) 3"
    then show ?thesis by (simp add: summarize_locally_default_nonempty)
  next
    fix n c
    assume "truthy (api_key sm)"
      "svc n (build_request sm (normalize_text (Some (text' item)))) = Content c"
      "summary item = py_strip c"
    with assms(2) show ?thesis by (auto simp: answers_nonblank_def)
  qed
qed

lemma digest_messages_accounted:
  "\<exists>items w'. digest_messages sm svc dialog ch msgs w = (Inr items, w') \<and>
           (\<forall>item\<in>set items. summary_accounted sm svc item)"
proof (induction msgs arbitrary: w)
  case Nil
  show ?case by simp
next
  case (Cons msg msgs)
  let ?text = "or_else (raw_text msg) (or_else (message msg) [])"
  from summarize_cases [of sm svc "Some ?text" w] obtain s w1 where
    s: "summarize sm svc (Some ?text) w = (Inr s, w1)" and
    c: "(normalize_text (Some ?text) = [] \<and> s = no_text_sentinel) \<or>
      (normalize_text (Some ?text) \<noteq> [] \<and> s = summarize_locally (normalize_text (Some ?text)) 3) \<or>
      (normalize_text (Some ?text) \<noteq> [] \<and> truthy (api_key sm) \<and>
       (\<exists>c. svc (remote_calls w) (build_request sm (normalize_text (Some ?text))) = Content c \<and>
            s = py_strip c))" by blast
  let ?item = "\<lparr> channel_title = title dialog, channel_id = id' ch,
                   message_id = msg_id msg, date = msg_date msg, text' = ?text,
                   summary = s, message_link = build_message_link ch (msg_id msg) \<rparr>"
  from c have a0: "summary_accounted sm svc ?item"
    unfolding summary_accounted_def by auto
  from Cons.IH [of w1] obtain items w2 where
    i: "digest_messages sm svc dialog ch msgs w1 = (Inr items, w2)"
    and a: "\<forall>item\<in>set items. summary_accounted sm svc item" by blast
  from s i have "digest_messages sm svc dialog ch (msg # msgs) w = (Inr (?item # items), w2)"
    by (simp add: Let_def)
  with a0 a show ?case by simp
qed

lemma fetch_dialogs_accounted:
  "fetch_dialogs client sm svc limit dialogs w = (Inr items, w') \<Longrightarrow>
     \<forall>item\<in>set items. summary_accounted sm svc item"
proof (induction dialogs arbitrary: w items)
  case Nil
  then show ?case by simp
next
  case (Cons dialog dialogs)
  show ?case
  proof (cases "entity dialog")
    case NotChannel
    with Cons.prems have "fetch_dialogs client sm svc limit dialogs w = (Inr items, w')" by simp
    then show ?thesis by (rule Cons.IH)
  next
    case (IsChannel ch)
    show ?thesis
    proof (cases "unread_count dialog \<le> 0")
      case True
      with IsChannel Cons.prems have "fetch_dialogs client sm svc limit dialogs w = (Inr items, w')"
        by simp
      then show ?thesis by (rule Cons.IH)
    next
      case False
      let ?found = "iter_messages client ch (min (unread_count dialog) limit)"
      show ?thesis
      proof (cases "keep_messages ?found")
        case (Inl e)
        with IsChannel False Cons.prems show ?thesis by (simp add: Let_def)
      next
        case (Inr kept)
        from digest_messages_accounted [of sm svc dialog ch "rev kept" w] obtain here w1 where
          d: "digest_messages sm svc dialog ch (rev kept) w = (Inr here, w1)"
          and a: "\<forall>item\<in>set here. summary_accounted sm svc item" by blast
        obtain r w2 where f: "fetch_dialogs client sm svc limit dialogs w1 = (r, w2)"
          by (cases "fetch_dialogs client sm svc limit dialogs w1")
        show ?thesis
        proof (cases r)
          case (Inl e)
          with IsChannel False Inr d f Cons.prems show ?thesis by (simp add: Let_def)
        next
          case r: (Inr rest)
          with IsChannel False Inr d f Cons.prems have "items = here @ rest" by (simp add: Let_def)
          moreover from f r have "\<forall>item\<in>set rest. summary_accounted sm svc item"
            using Cons.IH [of w1 rest] IsChannel False Inr d Cons.prems by (simp add: Let_def)
          ultimately show ?thesis using a by auto
        qed
      qed
    qed
  qed
qed

text \<open>A run that meets a message without the attribute \<open>unread\<close>, in the first dialog
  that is a channel with unread messages, raises and produces no item.\<close>

lemma fetch_dialogs_attribute_error:
  assumes "entity dialog = IsChannel ch" and "0 < unread_count dialog"
    and "iter_messages client ch (min (unread_count dialog) limit) = msg # msgs"
    and "unread msg = None"
  shows "fetch_dialogs client sm svc limit (dialog # dialogs) w = (Inl AttributeError, w)"
  using assms by (simp add: Let_def)

text \<open>
  Claim C5, as amended. \<open>summarize\<close> returns the sentinel when the text normalizes to
  the empty string; otherwise it returns the local summary of the normalized text or,
  with a credential configured, the stripped content the service answered with, as it
  is. Every item a run returns has such a summary of its own text. The summary is
  non-empty when no credential is configured or every content of the service has a
  character that is not whitespace.
\<close>

theorem fetched_summaries_accounted:
  "(\<exists>s w1. summarize sm svc text w = (Inr s, w1) \<and>
      ((normalize_text text = [] \<and> s = no_text_sentinel) \<or>
       (normalize_text text \<noteq> [] \<and> s = summarize_locally (normalize_text text) 3) \<or>
       (normalize_text text \<noteq> [] \<and> truthy (api_key sm) \<and>
        (\<exists>c. svc (remote_calls w) (build_request sm (normalize_text text)) = Content c \<and>
             s = py_strip c))) \<and>
      (\<not> truthy (api_key sm) \<or> answers_nonblank svc \<longrightarrow> s \<noteq> [])) \<and>
   (fetch_unread_messages env svc client limit w = (Inr items, w') \<longrightarrow>
      (\<forall>item\<in>set items.
         ((normalize_text (Some (text' item)) = [] \<and> summary item = no_text_sentinel) \<or>
          (normalize_text (Some (text' item)) \<noteq> [] \<and>
           summary item = summarize_locally (normalize_text (Some (text' item))) 3) \<or>
          (normalize_text (Some (text' item)) \<noteq> [] \<and>
           truthy (env (ascii ''OPENAI_API_KEY'')) \<and>
           (\<exists>n c. svc n (build_request (Summarizer_init env None)
                          (normalize_text (Some (text' item)))) = Content c \<and>
                  summary item = py_strip c))) \<and>
         (\<not> truthy (env (ascii ''OPENAI_API_KEY'')) \<or> answers_nonblank svc \<longrightarrow>
            summary item \<noteq> [])))"
proof (intro conjI impI ballI)
  from summarize_cases [of sm svc "text" w] obtain s w1 where
    r: "summarize sm svc text w = (Inr s, w1)" and
    c: "(normalize_text text = [] \<and> s = no_text_sentinel) \<or>
       (normalize_text text \<noteq> [] \<and> s = summarize_locally (normalize_text text) 3) \<or>
       (normalize_text text \<noteq> [] \<and> truthy (api_key sm) \<and>
        (\<exists>c. svc (remote_calls w) (build_request sm (normalize_text text)) = Content c \<and>
             s = py_strip c))" by blast
  have "\<not> truthy (api_key sm) \<or> answers_nonblank svc \<longrightarrow> s \<noteq> []"
    using summarize_nonempty [OF _ r] by blast
  with r c show "\<exists>s w1. summarize sm svc text w = (Inr s, w1) \<and>
      ((normalize_text text = [] \<and> s = no_text_sentinel) \<or>
       (normalize_text text \<noteq> [] \<and> s = summarize_locally (normalize_text text) 3) \<or>
       (normalize_text text \<noteq> [] \<and> truthy (api_key sm) \<and>
        (\<exists>c. svc (remote_calls w) (build_request sm (normalize_text text)) = Content c \<and>
             s = py_strip c))) \<and>
      (\<not> truthy (api_key sm) \<or> answers_nonblank svc \<longrightarrow> s \<noteq> [])" by blast
next
  fix item
  assume f: "fetch_unread_messages env svc client limit w = (Inr items, w')"
    and i: "item \<in> set items"
  have k: "api_key (Summarizer_init env None) = env (ascii ''OPENAI_API_KEY'')"
    by (simp add: Summarizer_init_def)
  from f i have a: "summary_accounted (Summarizer_init env None) svc item"
    unfolding fetch_unread_messages_def by (blast dest: fetch_dialogs_accounted)
  from a show "(normalize_text (Some (text' item)) = [] \<and> summary item = no_text_sentinel) \<or>
          (normalize_text (Some (text' item)) \<noteq> [] \<and>
           summary item = summarize_locally (normalize_text (Some (text' item))) 3) \<or>
          (normalize_text (Some (text' item)) \<noteq> [] \<and>
           truthy (env (ascii ''OPENAI_API_KEY'')) \<and>
           (\<exists>n c. svc n (build_request (Summarizer_init env None)
                          (normalize_text (Some (text' item)))) = Content c \<and>
                  summary item = py_strip c))"
    unfolding summary_accounted_def k .
  assume "\<not> truthy (env (ascii ''OPENAI_API_KEY'')) \<or> answers_nonblank svc"
  then have "\<not> truthy (api_key (Summarizer_init env None)) \<or> answers_nonblank svc"
    unfolding k .
  with a show "summary item \<noteq> []" by (rule summary_accounted_nonempty)
qed

lemma hi_facts:
  "ascii ''k'' \<noteq> []" "ascii ''hi'' \<noteq> []" "ascii ''ok'' \<noteq> []"
  "normalize_text (Some (ascii ''hi'')) = ascii ''hi''"
  "py_strip (ascii ''ok'') = ascii ''ok''"
  "py_strip [32] = []"
  "build_message_link \<lparr>id' = 7, username = Some (ascii ''chan'')\<rparr> 5 = ascii ''https://t.me/chan/5''"
  by (simp_all add: normalize_text_def py_strip_def strip_by_def rstrip_by_def lstrip_by_def
      py_isspace_def build_message_link_def truthy_def py_str_int_def nat_digits.simps ascii_def)

text \<open>The amended claim at the text \<open>"hi"\<close> with a credential and a service that
  answers \<open>"ok"\<close>: \<open>summarize\<close> returns \<open>"ok"\<close>, and so does the run over a message object
  that carries the attribute \<open>unread\<close>. Over a message of Telethon's class the same
  run raises \<open>AttributeError\<close> and returns no item.\<close>

theorem fetched_summaries_accounted_witness:
  "answers_nonblank (constant_service (ascii ''ok'')) \<and>
   summarize key_summarizer (constant_service (ascii ''ok'')) (Some (ascii ''hi''))
       \<lparr>remote_calls = 0, warnings = []\<rparr> =
     (Inr (ascii ''ok''), \<lparr>remote_calls = 1, warnings = []\<rparr>) \<and>
   fetch_unread_messages env_with_key (constant_service (ascii ''ok''))
       (one_message_client (Some True)) 50 \<lparr>remote_calls = 0, warnings = []\<rparr> =
     (Inr [\<lparr> channel_title = ascii ''A'', channel_id = 7, message_id = 5,
              date = ascii ''2024-01-01 00:00'', text' = ascii ''hi'', summary = ascii ''ok'',
              message_link = ascii ''https://t.me/chan/5'' \<rparr>],
      \<lparr>remote_calls = 1, warnings = []\<rparr>) \<and>
   summary \<lparr> channel_title = ascii ''A'', channel_id = 7, message_id = 5,
              date = ascii ''2024-01-01 00:00'', text' = ascii ''hi'', summary = ascii ''ok'',
              message_link = ascii ''https://t.me/chan/5'' \<rparr> \<noteq> [] \<and>
   fetch_unread_messages env_with_key (constant_service (ascii ''ok''))
       (one_message_client None) 50 \<lparr>remote_calls = 0, warnings = []\<rparr> =
     (Inl AttributeError, \<lparr>remote_calls = 0, warnings = []\<rparr>)"
proof -
  let ?item = "\<lparr> channel_title = ascii ''A'', channel_id = 7, message_id = 5,
              date = ascii ''2024-01-01 00:00'', text' = ascii ''hi'', summary = ascii ''ok'',
              message_link = ascii ''https://t.me/chan/5'' \<rparr>"
  let ?w0 = "\<lparr>remote_calls = 0, warnings = []\<rparr>"
  let ?w1 = "\<lparr>remote_calls = 1, warnings = []\<rparr>"
  have c1: "answers_nonblank (constant_service (ascii ''ok''))"
    by (simp add: answers_nonblank_def constant_service_def hi_facts)
  have c2: "summarize key_summarizer (constant_service (ascii ''ok'')) (Some (ascii ''hi'')) ?w0 =
     (Inr (ascii ''ok''), ?w1)"
    by (simp add: summarize_def summarize_remote_def key_summarizer_def truthy_def
        constant_service_def hi_facts Let_def)
  have c3: "fetch_unread_messages env_with_key (constant_service (ascii ''ok''))
       (one_message_client (Some True)) 50 ?w0 = (Inr [?item], ?w1)"
    by (simp add: fetch_unread_messages_def one_message_client_def hi_dialog_def hi_message_def
        env_with_key_def Summarizer_init_def truthy_def or_else_def summarize_def
        summarize_remote_def constant_service_def hi_facts Let_def)
  from fetched_summaries_accounted [of key_summarizer "constant_service (ascii ''ok'')"
      "Some (ascii ''hi'')" ?w0 env_with_key "one_message_client (Some True)" 50 "[?item]" ?w1]
    c1 c3
  have c4: "summary ?item \<noteq> []" by simp
  have c5: "fetch_unread_messages env_with_key (constant_service (ascii ''ok''))
       (one_message_client None) 50 ?w0 = (Inl AttributeError, ?w0)"
    by (simp add: fetch_unread_messages_def one_message_client_def hi_dialog_def hi_message_def
        Let_def)
  show ?thesis by (intro conjI) (fact c1 c2 c3 c4 c5)+
qed

text \<open>
  Claim C5 as stated fails: with a credential configured and a service that answers
  with a blank content, \<open>summarize\<close> returns the empty string for the text \<open>"hi"\<close>, and
  the run over a message object that carries the attribute \<open>unread\<close> returns an item
  with that summary.
\<close>

theorem blank_remote_summary_counterexample:
  "summarize key_summarizer (constant_service [32]) (Some (ascii ''hi''))
       \<lparr>remote_calls = 0, warnings = []\<rparr> =
     (Inr [], \<lparr>remote_calls = 1, warnings = []\<rparr>) \<and>
   fetch_unread_messages env_with_key (constant_service [32])
       (one_message_client (Some True)) 50 \<lparr>remote_calls = 0, warnings = []\<rparr> =
     (Inr [\<lparr> channel_title = ascii ''A'', channel_id = 7, message_id = 5,
              date = ascii ''2024-01-01 00:00'', text' = ascii ''hi'', summary = [],
              message_link = ascii ''https://t.me/chan/5'' \<rparr>],
      \<lparr>remote_calls = 1, warnings = []\<rparr>)"
proof -
  let ?item = "\<lparr> channel_title = ascii ''A'', channel_id = 7, message_id = 5,
              date = ascii ''2024-01-01 00:00'', text' = ascii ''hi'', summary = [],
              message_link = ascii ''https://t.me/chan/5'' \<rparr>"
  let ?w0 = "\<lparr>remote_calls = 0, warnings = []\<rparr>"
  let ?w1 = "\<lparr>remote_calls = 1, warnings = []\<rparr>"
  have c1: "summarize key_summarizer (constant_service [32]) (Some (ascii ''hi'')) ?w0 =
     (Inr [], ?w1)"
    by (simp add: summarize_def summarize_remote_def key_summarizer_def truthy_def
        constant_service_def hi_facts Let_def)
  have c3: "fetch_unread_messages env_with_key (constant_service [32])
       (one_message_client (Some True)) 50 ?w0 = (Inr [?item], ?w1)"
    by (simp add: fetch_unread_messages_def one_message_client_def hi_dialog_def hi_message_def
        env_with_key_def Summarizer_init_def truthy_def or_else_def summarize_def
        summarize_remote_def constant_service_def hi_facts Let_def)
  show ?thesis by (intro conjI) (fact c1 c3)+
qed

section \<open>Grouping of the notification message\<close>

lemma set_first_seen: "set (first_seen xs) = set xs"
  by (induction xs rule: first_seen.induct) auto

lemma distinct_first_seen: "distinct (first_seen xs)"
  by (induction xs rule: first_seen.induct) (auto simp: set_first_seen)

lemma first_seen_snoc:
  "first_seen (ys @ [y]) = (if y \<in> set ys then first_seen ys else first_seen ys @ [y])"
  by (induction ys rule: first_seen.induct) auto

lemma group_append_keyed:
  assumes "distinct ts"
  shows "group_append x (map (\<lambda>t. (t, f t)) ts) =
     (if channel_title x \<in> set ts
      then map (\<lambda>t. (t, if t = channel_title x then f t @ [x] else f t)) ts
      else map (\<lambda>t. (t, f t)) ts @ [(channel_title x, [x])])"
  using assms by (induction ts) auto

lemma group_items_snoc: "group_items (xs @ [x]) = group_append x (group_items xs)"
  by (simp add: group_items_def)

lemma group_items_by_title:
  "group_items items =
     map (\<lambda>t. (t, items_titled t items)) (first_seen (map channel_title items))"
proof (induction items rule: rev_induct)
  case Nil
  show ?case by (simp add: group_items_def)
next
  case (snoc x xs)
  let ?ts = "first_seen (map channel_title xs)"
  have d: "distinct ?ts" by (rule distinct_first_seen)
  have s: "set ?ts = channel_title ` set xs" by (simp add: set_first_seen)
  show ?case
  proof (cases "channel_title x \<in> channel_title ` set xs")
    case True
    then have "group_items (xs @ [x]) =
        map (\<lambda>t. (t, if t = channel_title x then items_titled t xs @ [x] else items_titled t xs)) ?ts"
      using group_append_keyed [OF d, of x "\<lambda>t. items_titled t xs"] s
      by (simp add: group_items_snoc snoc.IH)
    also have "\<dots> = map (\<lambda>t. (t, items_titled t (xs @ [x]))) ?ts"
      by (simp add: items_titled_def)
    also have "?ts = first_seen (map channel_title (xs @ [x]))"
      using True by (simp add: first_seen_snoc)
    finally show ?thesis .
  next
    case False
    then have e: "items_titled (channel_title x) xs = []"
      by (auto simp: items_titled_def filter_empty_conv image_iff)
    from False have "group_items (xs @ [x]) =
        map (\<lambda>t. (t, items_titled t xs)) ?ts @ [(channel_title x, [x])]"
      using group_append_keyed [OF d, of x "\<lambda>t. items_titled t xs"] s
      by (simp add: group_items_snoc snoc.IH)
    also have "map (\<lambda>t. (t, items_titled t xs)) ?ts = map (\<lambda>t. (t, items_titled t (xs @ [x]))) ?ts"
      using False s by (auto simp: items_titled_def)
    also have "[(channel_title x, [x])] = map (\<lambda>t. (t, items_titled t (xs @ [x]))) [channel_title x]"
      using e by (simp add: items_titled_def)
    finally show ?thesis using False by (simp add: first_seen_snoc)
  qed
qed

lemma group_lines_cases:
  assumes "l \<in> set (group_lines (t, v))"
  shows "l = heading_line t \<or> (\<exists>item\<in>set v. \<exists>idx. l = summary_line idx item) \<or>
         (\<exists>item\<in>set v. l = link_line item)"
proof -
  from assms have "l = heading_line t \<or>
      (\<exists>p\<in>set (enumerate 1 v). l = summary_line (fst p) (snd p) \<or> l = link_line (snd p))"
    by (fastforce simp: group_lines_def)
  moreover have "\<And>p. p \<in> set (enumerate 1 v) \<Longrightarrow> snd p \<in> set v"
    by (auto simp: in_set_enumerate_eq)
  ultimately show ?thesis by blast
qed

lemma group_lines_members:
  assumes "item \<in> set v"
  shows "link_line item \<in> set (group_lines (t, v))"
    and "\<exists>idx. summary_line idx item \<in> set (group_lines (t, v))"
    and "heading_line t \<in> set (group_lines (t, v))"
proof -
  from assms obtain i where i: "i < length v" "v ! i = item" by (auto simp: in_set_conv_nth)
  then have p: "(Suc i, item) \<in> set (enumerate 1 v)" by (auto simp: in_set_enumerate_eq)
  from p show "link_line item \<in> set (group_lines (t, v))"
    by (force simp: group_lines_def)
  from p have "summary_line (Suc i) item \<in> set (group_lines (t, v))"
    by (force simp: group_lines_def)
  then show "\<exists>idx. summary_line idx item \<in> set (group_lines (t, v))" ..
  show "heading_line t \<in> set (group_lines (t, v))" by (simp add: group_lines_def)
qed

lemma length_group_lines: "length (group_lines (t, v)) = 1 + 2 * length v"
proof -
  have "\<And>n. length (concat (map (\<lambda>(idx, item). [summary_line idx item, link_line item])
      (enumerate n v))) = 2 * length v"
    by (induction v) auto
  then show ?thesis by (simp add: group_lines_def)
qed

lemma group_append_total:
  "sum_list (map (\<lambda>g. length (snd g)) (group_append x gs)) =
     Suc (sum_list (map (\<lambda>g. length (snd g)) gs))"
  by (induction gs) auto

lemma group_items_total: "sum_list (map (\<lambda>g. length (snd g)) (group_items xs)) = length xs"
  by (induction xs rule: rev_induct)
     (simp_all add: group_items_snoc group_append_total, simp add: group_items_def)

lemma length_groups_lines:
  "length (concat (map group_lines gs)) = length gs + 2 * sum_list (map (\<lambda>g. length (snd g)) gs)"
proof (induction gs)
  case Nil
  show ?case by simp
next
  case (Cons g gs)
  obtain t v where g: "g = (t, v)" by (cases g)
  with Cons show ?case by (simp add: length_group_lines)
qed

lemma rendered_lines_length:
  "length (concat (map group_lines (group_items xs))) =
     length (first_seen (map channel_title xs)) + 2 * length xs"
proof -
  have "length (group_items xs) = length (first_seen (map channel_title xs))"
    by (simp add: group_items_by_title)
  then show ?thesis by (simp add: length_groups_lines group_items_total)
qed

lemma rendered_lines_cases:
  assumes "l \<in> set (concat (map group_lines (group_items xs)))"
  shows "(\<exists>item\<in>set xs. l = heading_line (channel_title item)) \<or>
         (\<exists>item\<in>set xs. \<exists>idx. l = summary_line idx item) \<or>
         (\<exists>item\<in>set xs. l = link_line item)"
proof -
  from assms obtain t where t: "t \<in> set (first_seen (map channel_title xs))"
    and l: "l \<in> set (group_lines (t, items_titled t xs))"
    by (auto simp: group_items_by_title)
  from t obtain item0 where i0: "item0 \<in> set xs" "channel_title item0 = t"
    by (auto simp: set_first_seen)
  have sub: "set (items_titled t xs) \<subseteq> set xs" by (auto simp: items_titled_def)
  from group_lines_cases [OF l] show ?thesis
  proof (elim disjE)
    assume "l = heading_line t"
    with i0 show ?thesis by blast
  next
    assume "\<exists>item\<in>set (items_titled t xs). \<exists>idx. l = summary_line idx item"
    with sub show ?thesis by blast
  next
    assume "\<exists>item\<in>set (items_titled t xs). l = link_line item"
    with sub show ?thesis by blast
  qed
qed

lemma rendered_lines_members:
  assumes "item \<in> set xs"
  shows "link_line item \<in> set (concat (map group_lines (group_items xs)))"
    and "\<exists>idx. summary_line idx item \<in> set (concat (map group_lines (group_items xs)))"
    and "heading_line (channel_title item) \<in> set (concat (map group_lines (group_items xs)))"
proof -
  let ?t = "channel_title item"
  from assms have t: "?t \<in> set (first_seen (map channel_title xs))"
    by (simp add: set_first_seen)
  from assms have m: "item \<in> set (items_titled ?t xs)" by (simp add: items_titled_def)
  have g: "set (group_lines (?t, items_titled ?t xs)) \<subseteq>
      set (concat (map group_lines (group_items xs)))"
    using t by (auto simp: group_items_by_title)
  from group_lines_members [OF m, of ?t] g
  show "link_line item \<in> set (concat (map group_lines (group_items xs)))"
    and "\<exists>idx. summary_line idx item \<in> set (concat (map group_lines (group_items xs)))"
    and "heading_line (channel_title item) \<in> set (concat (map group_lines (group_items xs)))"
    by blast+
qed

lemma nat_digits_head: "\<exists>d ds. nat_digits n = d # ds \<and> 48 \<le> d"
proof -
  have "nat_digits n \<noteq> []"
    by (subst nat_digits.simps) simp
  then obtain d ds where e: "nat_digits n = d # ds" by (cases "nat_digits n") auto
  with nat_digits_decimal [of n] have "is_digit d" by simp
  with e show ?thesis by (auto simp: is_digit_def)
qed

lemma rendered_line_not_note:
  assumes "l \<in> set (concat (map group_lines (group_items xs)))"
  shows "l \<noteq> omitted_note n"
proof -
  have h: "heading_line t \<noteq> omitted_note n" for t
    by (simp add: heading_line_def omitted_note_def)
  have k: "link_line item \<noteq> omitted_note n" for item :: DigestItem
    by (simp add: link_line_def omitted_note_def)
  have s: "summary_line idx item \<noteq> omitted_note n" for idx and item :: DigestItem
  proof -
    from nat_digits_head [of idx] obtain d ds where "nat_digits idx = d # ds" "48 \<le> d" by blast
    then show "summary_line idx item \<noteq> omitted_note n"
      by (auto simp: summary_line_def omitted_note_def py_str_int_def)
  qed
  from rendered_lines_cases [OF assms] show ?thesis
  proof (elim disjE bexE exE)
    fix item assume "l = heading_line (channel_title item)"
    with h show ?thesis by simp
  next
    fix item idx assume "l = summary_line idx item"
    with s show ?thesis by simp
  next
    fix item assume "l = link_line item"
    with k show ?thesis by simp
  qed
qed

lemma escape_char_values:
  "escape_char 38 = [38, 97, 109, 112, 59]"
  "escape_char 60 = [38, 108, 116, 59]"
  "escape_char 62 = [38, 103, 116, 59]"
  "escape_char 34 = [38, 113, 117, 111, 116, 59]"
  "escape_char 39 = [38, 35, 120, 50, 55, 59]"
  by (simp_all add: escape_char_def ascii_def)

lemma escape_char_other:
  "x \<noteq> 38 \<Longrightarrow> x \<noteq> 60 \<Longrightarrow> x \<noteq> 62 \<Longrightarrow> x \<noteq> 34 \<Longrightarrow> x \<noteq> 39 \<Longrightarrow> escape_char x = [x]"
  by (simp add: escape_char_def)

lemma escape_char_no_markup:
  assumes "c \<in> set (escape_char x)"
  shows "c \<noteq> 60 \<and> c \<noteq> 62 \<and> c \<noteq> 34 \<and> c \<noteq> 39"
proof -
  consider "x = 38" | "x = 60" | "x = 62" | "x = 34" | "x = 39"
    | "x \<noteq> 38" "x \<noteq> 60" "x \<noteq> 62" "x \<noteq> 34" "x \<noteq> 39" by blast
  then show ?thesis
  proof cases
    case 1 with assms show ?thesis by (simp add: escape_char_values) presburger
  next
    case 2 with assms show ?thesis by (simp add: escape_char_values) presburger
  next
    case 3 with assms show ?thesis by (simp add: escape_char_values) presburger
  next
    case 4 with assms show ?thesis by (simp add: escape_char_values) presburger
  next
    case 5 with assms show ?thesis by (simp add: escape_char_values) presburger
  next
    case 6 with assms show ?thesis by (simp add: escape_char_other)
  qed
qed

lemma html_escape_no_markup:
  "c \<in> set (html_escape s) \<Longrightarrow> c \<noteq> 60 \<and> c \<noteq> 62 \<and> c \<noteq> 34 \<and> c \<noteq> 39"
  unfolding html_escape_def using escape_char_no_markup by auto

section \<open>The notification message\<close>

lemma digest_lines_unfold:
  "digest_lines items m =
     [digest_header] @ concat (map group_lines (group_items (slice_to items m))) @
     (if int (length items) > m then [omitted_note (int (length items) - m)] else [])"
  by (simp add: digest_lines_def Let_def)

lemma demo_item_fields:
  "channel_title (demo_item t cid s l) = ascii t"
  "summary (demo_item t cid s l) = ascii s"
  "message_link (demo_item t cid s l) = ascii l"
  by (simp_all add: demo_item_def)

text \<open>
  Claim C9. The capped items are grouped by channel title alone: the groups are the
  titles of the capped items in first-seen order, and the group of a title holds the
  capped items with that title (whatever their channel ids) in incoming order. The
  message is the header, then the lines of each group in that order, each group
  starting with its heading, then the note if any.
\<close>

theorem digest_groups_by_title:
  "items \<noteq> [] \<longrightarrow>
     group_items (slice_to items max_items) =
       map (\<lambda>t. (t, items_titled t (slice_to items max_items)))
         (first_seen (map channel_title (slice_to items max_items))) \<and>
     build_digest_message items max_items =
       py_join [10]
         ([digest_header] @
          concat (map (\<lambda>t. group_lines (t, items_titled t (slice_to items max_items)))
                    (first_seen (map channel_title (slice_to items max_items)))) @
          (if int (length items) > max_items
           then [omitted_note (int (length items) - max_items)] else [])) \<and>
     (\<forall>t. items_titled t (slice_to items max_items) =
            filter (\<lambda>item. channel_title item = t) (slice_to items max_items)) \<and>
     (\<forall>t v. hd (group_lines (t, v)) = heading_line t) \<and>
     distinct (first_seen (map channel_title (slice_to items max_items))) \<and>
     set (first_seen (map channel_title (slice_to items max_items))) =
       channel_title ` set (slice_to items max_items)"
proof (intro impI conjI allI)
  show "group_items (slice_to items max_items) =
       map (\<lambda>t. (t, items_titled t (slice_to items max_items)))
         (first_seen (map channel_title (slice_to items max_items)))"
    by (rule group_items_by_title)
next
  assume "items \<noteq> []"
  then show "build_digest_message items max_items =
       py_join [10]
         ([digest_header] @
          concat (map (\<lambda>t. group_lines (t, items_titled t (slice_to items max_items)))
                    (first_seen (map channel_title (slice_to items max_items)))) @
          (if int (length items) > max_items
           then [omitted_note (int (length items) - max_items)] else []))"
    by (simp add: build_digest_message_def digest_lines_unfold group_items_by_title comp_def)
next
  fix t
  show "items_titled t (slice_to items max_items) =
            filter (\<lambda>item. channel_title item = t) (slice_to items max_items)"
    by (simp add: items_titled_def)
next
  fix t v
  show "hd (group_lines (t, v)) = heading_line t" by (simp add: group_lines_def)
next
  show "distinct (first_seen (map channel_title (slice_to items max_items)))"
    by (rule distinct_first_seen)
next
  show "set (first_seen (map channel_title (slice_to items max_items))) =
       channel_title ` set (slice_to items max_items)"
    by (simp add: set_first_seen)
qed

text \<open>The claim at three items: title \<open>A\<close> (channel 1), title \<open>B\<close> (channel 2) and
  title \<open>A\<close> again (channel 3). There is one group \<open>A\<close>, with the first and the third
  item, before the group \<open>B\<close>.\<close>

theorem digest_groups_by_title_witness:
  "[demo_item ''A'' 1 ''s1'' ''l1'', demo_item ''B'' 2 ''s2'' ''l2'',
    demo_item ''A'' 3 ''s3'' ''l3''] \<noteq> [] \<and>
   group_items (slice_to [demo_item ''A'' 1 ''s1'' ''l1'', demo_item ''B'' 2 ''s2'' ''l2'',
      demo_item ''A'' 3 ''s3'' ''l3''] 20) =
     [(ascii ''A'', [demo_item ''A'' 1 ''s1'' ''l1'', demo_item ''A'' 3 ''s3'' ''l3'']),
      (ascii ''B'', [demo_item ''B'' 2 ''s2'' ''l2''])] \<and>
   build_digest_message [demo_item ''A'' 1 ''s1'' ''l1'', demo_item ''B'' 2 ''s2'' ''l2'',
      demo_item ''A'' 3 ''s3'' ''l3''] 20 =
     py_join [10]
       [digest_header,
        heading_line (ascii ''A''),
        summary_line 1 (demo_item ''A'' 1 ''s1'' ''l1''), link_line (demo_item ''A'' 1 ''s1'' ''l1''),
        summary_line 2 (demo_item ''A'' 3 ''s3'' ''l3''), link_line (demo_item ''A'' 3 ''s3'' ''l3''),
        heading_line (ascii ''B''),
        summary_line 1 (demo_item ''B'' 2 ''s2'' ''l2''), link_line (demo_item ''B'' 2 ''s2'' ''l2'')]"
proof -
  let ?a1 = "demo_item ''A'' 1 ''s1'' ''l1''"
  let ?b = "demo_item ''B'' 2 ''s2'' ''l2''"
  let ?a3 = "demo_item ''A'' 3 ''s3'' ''l3''"
  have ne: "ascii ''A'' \<noteq> ascii ''B''" "ascii ''B'' \<noteq> ascii ''A''" by (simp_all add: ascii_def)
  have c: "slice_to [?a1, ?b, ?a3] 20 = [?a1, ?b, ?a3]" by (simp add: slice_to_def)
  have f: "first_seen (map channel_title [?a1, ?b, ?a3]) = [ascii ''A'', ascii ''B'']"
    by (simp add: demo_item_fields ne)
  have ta: "items_titled (ascii ''A'') [?a1, ?b, ?a3] = [?a1, ?a3]"
    and tb: "items_titled (ascii ''B'') [?a1, ?b, ?a3] = [?b]"
    by (simp_all add: items_titled_def demo_item_fields ne)
  from digest_groups_by_title [of "[?a1, ?b, ?a3]" 20]
  show ?thesis unfolding c f by (simp add: ta tb group_lines_def numeral_2_eq_2)
qed

lemma py_join_snoc:
  "xs \<noteq> [] \<Longrightarrow> py_join sep (xs @ [y]) = py_join sep xs @ sep @ y"
  by (induction xs rule: induct_list012) auto

lemma digest_lines_capped:
  assumes "0 \<le> m" and "int (length items) > m"
  shows "slice_to items m = take (nat m) items"
    and "length (take (nat m) items) = nat m"
    and "digest_lines items m =
           digest_lines (take (nat m) items) m @ [omitted_note (int (length items) - m)]"
    and "length (digest_lines items m) =
           2 + length (first_seen (map channel_title (take (nat m) items))) + 2 * nat m"
proof -
  from assms show s: "slice_to items m = take (nat m) items" by (simp add: slice_to_def)
  from assms show l: "length (take (nat m) items) = nat m" by simp
  from assms have s2: "slice_to (take (nat m) items) m = take (nat m) items"
    by (simp add: slice_to_def)
  from assms have n: "\<not> int (length (take (nat m) items)) > m" by simp
  have a: "digest_lines (take (nat m) items) m =
      [digest_header] @ concat (map group_lines (group_items (take (nat m) items)))"
    unfolding digest_lines_unfold [of "take (nat m) items"] s2 using n by simp
  have b: "digest_lines items m =
      [digest_header] @ concat (map group_lines (group_items (take (nat m) items))) @
      [omitted_note (int (length items) - m)]"
    unfolding digest_lines_unfold [of items] s using assms by simp
  from a b show "digest_lines items m =
           digest_lines (take (nat m) items) m @ [omitted_note (int (length items) - m)]"
    by simp
  show "length (digest_lines items m) =
           2 + length (first_seen (map channel_title (take (nat m) items))) + 2 * nat m"
    unfolding b using l by (simp add: rendered_lines_length)
qed

lemma omitted_note_text:
  "omitted_note n =
     [10, 8230, 50808, 32] @ py_str_int n @ [44148, 51008, 32] @ ascii ''HTML/JSON'' @
     [32, 54028, 51068, 51012, 32, 54869, 51064, 54616, 49464, 50836, 46]"
  by (simp add: omitted_note_def)

lemma py_str_int_decimal:
  "0 \<le> n \<Longrightarrow> decimal_value (py_str_int n) = nat n \<and> list_all is_digit (py_str_int n)"
  using nat_digits_decimal [of "nat n"] by (simp add: py_str_int_def)

lemma rendered_line_start:
  assumes "l \<in> set (concat (map group_lines (group_items xs)))"
  shows "take 2 l \<noteq> [10, 8230]"
proof -
  have h: "take 2 (heading_line t) \<noteq> [10, 8230]" for t
    by (simp add: heading_line_def)
  have k: "take 2 (link_line item) \<noteq> [10, 8230]" for item :: DigestItem
    by (simp add: link_line_def)
  have s: "take 2 (summary_line idx item) \<noteq> [10, 8230]" for idx and item :: DigestItem
  proof -
    from nat_digits_head [of idx] obtain d ds where "nat_digits idx = d # ds" "48 \<le> d" by blast
    then show ?thesis by (auto simp: summary_line_def py_str_int_def)
  qed
  from rendered_lines_cases [OF assms] show ?thesis
  proof (elim disjE bexE exE)
    fix item assume "l = heading_line (channel_title item)"
    with h show ?thesis by simp
  next
    fix item idx assume "l = summary_line idx item"
    with s show ?thesis by simp
  next
    fix item assume "l = link_line item"
    with k show ?thesis by simp
  qed
qed

text \<open>
  Claim C4. For a list longer than \<open>max_items\<close> the lines of the message are the
  header, the groups of the slice \<open>items[:max_items]\<close> and, last, the note with the
  count \<open>len(items) - max_items\<close>. For \<open>max_items \<ge> 0\<close> the slice is the first
  \<open>max_items\<close> items: the lines are those of the message for these items alone,
  followed by the note; each of these items has its summary line and its link line,
  and there are two lines per item, one heading per title, the header and the note.
  For a list of at most \<open>max_items\<close> items all items are rendered and no line is a
  note: none starts with a line feed and the ellipsis that open the note.

  The note is the text \<open>"\n\<dots>\<close> followed by the Korean for "besides, for \<open>N\<close> items see the
  HTML/JSON files", where \<open>N\<close> is the decimal form of \<open>len(items) - max_items\<close>: the
  statement spells its code points out (U+2026 the ellipsis, U+C678 "besides",
  U+AC74 U+C740 "items", then \<open>HTML/JSON\<close> and "check the files").
\<close>

theorem digest_cap_and_note:
  "items \<noteq> [] \<longrightarrow>
     build_digest_message items max_items = py_join [10] (digest_lines items max_items) \<and>
     (int (length items) > max_items \<longrightarrow>
        digest_lines items max_items =
          [digest_header] @ concat (map group_lines (group_items (slice_to items max_items))) @
          [omitted_note (int (length items) - max_items)] \<and>
        build_digest_message items max_items =
          py_join [10] ([digest_header] @
             concat (map group_lines (group_items (slice_to items max_items)))) @
          [10] @ omitted_note (int (length items) - max_items) \<and>
        omitted_note (int (length items) - max_items) =
          [10, 8230, 50808, 32] @ py_str_int (int (length items) - max_items) @ [44148, 51008, 32] @
            ascii ''HTML/JSON'' @
            [32, 54028, 51068, 51012, 32, 54869, 51064, 54616, 49464, 50836, 46] \<and>
        last (digest_lines items max_items) =
          [10, 8230, 50808, 32] @ py_str_int (int (length items) - max_items) @ [44148, 51008, 32] @
            ascii ''HTML/JSON'' @
            [32, 54028, 51068, 51012, 32, 54869, 51064, 54616, 49464, 50836, 46] \<and>
        0 < int (length items) - max_items \<and>
        decimal_value (py_str_int (int (length items) - max_items)) =
          nat (int (length items) - max_items) \<and>
        list_all is_digit (py_str_int (int (length items) - max_items)) \<and>
        (0 \<le> max_items \<longrightarrow>
           slice_to items max_items = take (nat max_items) items \<and>
           length (take (nat max_items) items) = nat max_items \<and>
           digest_lines items max_items =
             digest_lines (take (nat max_items) items) max_items @
             [omitted_note (int (length items) - max_items)] \<and>
           length (digest_lines items max_items) =
             2 + length (first_seen (map channel_title (take (nat max_items) items))) +
             2 * nat max_items \<and>
           (\<forall>item\<in>set (take (nat max_items) items).
              link_line item \<in> set (digest_lines items max_items) \<and>
              (\<exists>idx. summary_line idx item \<in> set (digest_lines items max_items))))) \<and>
     (int (length items) \<le> max_items \<longrightarrow>
        digest_lines items max_items =
          [digest_header] @ concat (map group_lines (group_items items)) \<and>
        (\<forall>n. omitted_note n \<notin> set (digest_lines items max_items)) \<and>
        (\<forall>l\<in>set (digest_lines items max_items). take 2 l \<noteq> [10, 8230]))"
proof (intro impI conjI ballI allI)
  assume "items \<noteq> []"
  then show "build_digest_message items max_items = py_join [10] (digest_lines items max_items)"
    by (simp add: build_digest_message_def)
next
  assume "int (length items) > max_items"
  then show "digest_lines items max_items =
          [digest_header] @ concat (map group_lines (group_items (slice_to items max_items))) @
          [omitted_note (int (length items) - max_items)]"
    by (simp add: digest_lines_unfold)
next
  assume ne: "items \<noteq> []" and gt: "int (length items) > max_items"
  let ?body = "[digest_header] @ concat (map group_lines (group_items (slice_to items max_items)))"
  have d: "digest_lines items max_items =
      ?body @ [omitted_note (int (length items) - max_items)]"
    using gt by (simp add: digest_lines_unfold)
  have nn: "?body \<noteq> []" by simp
  from ne have b: "build_digest_message items max_items =
      py_join [10] (digest_lines items max_items)"
    by (simp add: build_digest_message_def)
  show "build_digest_message items max_items =
          py_join [10] ([digest_header] @
             concat (map group_lines (group_items (slice_to items max_items)))) @
          [10] @ omitted_note (int (length items) - max_items)"
    unfolding b d by (rule py_join_snoc [OF nn])
next
  show "omitted_note (int (length items) - max_items) =
          [10, 8230, 50808, 32] @ py_str_int (int (length items) - max_items) @ [44148, 51008, 32] @
            ascii ''HTML/JSON'' @
            [32, 54028, 51068, 51012, 32, 54869, 51064, 54616, 49464, 50836, 46]"
    by (rule omitted_note_text)
next
  assume "int (length items) > max_items"
  then have "last (digest_lines items max_items) = omitted_note (int (length items) - max_items)"
    by (simp add: digest_lines_unfold)
  then show "last (digest_lines items max_items) =
          [10, 8230, 50808, 32] @ py_str_int (int (length items) - max_items) @ [44148, 51008, 32] @
            ascii ''HTML/JSON'' @
            [32, 54028, 51068, 51012, 32, 54869, 51064, 54616, 49464, 50836, 46]"
    by (simp only: omitted_note_text)
next
  assume "int (length items) > max_items"
  then show "0 < int (length items) - max_items" by simp
next
  assume "int (length items) > max_items"
  then have "0 \<le> int (length items) - max_items" by simp
  then show "decimal_value (py_str_int (int (length items) - max_items)) =
          nat (int (length items) - max_items)"
    by (simp only: py_str_int_decimal)
next
  assume "int (length items) > max_items"
  then have "0 \<le> int (length items) - max_items" by simp
  then show "list_all is_digit (py_str_int (int (length items) - max_items))"
    by (simp only: py_str_int_decimal)
next
  assume "0 \<le> max_items" "int (length items) > max_items"
  then show "slice_to items max_items = take (nat max_items) items"
    by (rule digest_lines_capped)
next
  assume "0 \<le> max_items" "int (length items) > max_items"
  then show "length (take (nat max_items) items) = nat max_items"
    by (rule digest_lines_capped)
next
  assume "0 \<le> max_items" "int (length items) > max_items"
  then show "digest_lines items max_items =
             digest_lines (take (nat max_items) items) max_items @
             [omitted_note (int (length items) - max_items)]"
    by (rule digest_lines_capped)
next
  assume "0 \<le> max_items" "int (length items) > max_items"
  then show "length (digest_lines items max_items) =
             2 + length (first_seen (map channel_title (take (nat max_items) items))) +
             2 * nat max_items"
    by (rule digest_lines_capped)
next
  fix item
  assume m: "0 \<le> max_items" "int (length items) > max_items"
    and i: "item \<in> set (take (nat max_items) items)"
  from m have s: "slice_to items max_items = take (nat max_items) items"
    by (rule digest_lines_capped)
  from rendered_lines_members(1) [OF i]
  show "link_line item \<in> set (digest_lines items max_items)"
    unfolding digest_lines_unfold s by simp
  from rendered_lines_members(2) [OF i]
  show "\<exists>idx. summary_line idx item \<in> set (digest_lines items max_items)"
    unfolding digest_lines_unfold s by auto
next
  assume le: "int (length items) \<le> max_items"
  then have s: "slice_to items max_items = items" by (simp add: slice_to_def)
  from le show "digest_lines items max_items =
          [digest_header] @ concat (map group_lines (group_items items))"
    unfolding digest_lines_unfold s by simp
next
  fix n
  assume le: "int (length items) \<le> max_items"
  then have s: "slice_to items max_items = items" by (simp add: slice_to_def)
  from le have d: "digest_lines items max_items =
          digest_header # concat (map group_lines (group_items items))"
    unfolding digest_lines_unfold s by simp
  have h: "digest_header \<noteq> omitted_note n"
    by (simp add: digest_header_def omitted_note_def)
  show "omitted_note n \<notin> set (digest_lines items max_items)"
  proof
    assume "omitted_note n \<in> set (digest_lines items max_items)"
    with d h have "omitted_note n \<in> set (concat (map group_lines (group_items items)))"
      by auto
    from rendered_line_not_note [OF this, of n] show False by simp
  qed
next
  fix l
  assume le: "int (length items) \<le> max_items"
    and l: "l \<in> set (digest_lines items max_items)"
  from le have s: "slice_to items max_items = items" by (simp add: slice_to_def)
  from le have d: "digest_lines items max_items =
          digest_header # concat (map group_lines (group_items items))"
    unfolding digest_lines_unfold s by simp
  from l d have "l = digest_header \<or> l \<in> set (concat (map group_lines (group_items items)))"
    by auto
  then show "take 2 l \<noteq> [10, 8230]"
  proof
    assume "l = digest_header"
    then show ?thesis by (simp add: digest_header_def)
  next
    assume "l \<in> set (concat (map group_lines (group_items items)))"
    then show ?thesis by (rule rendered_line_start)
  qed
qed

text \<open>The claim at three items with \<open>max_items = 2\<close> (one item omitted) and with
  \<open>max_items = 3\<close> (no note), and at 25 items of two titles with \<open>max_items = 20\<close>: the
  last line is the note for 5 items.\<close>

theorem digest_cap_and_note_witness:
  "[demo_item ''A'' 1 ''s1'' ''l1'', demo_item ''B'' 2 ''s2'' ''l2'',
    demo_item ''A'' 3 ''s3'' ''l3''] \<noteq> [] \<and>
   int (length [demo_item ''A'' 1 ''s1'' ''l1'', demo_item ''B'' 2 ''s2'' ''l2'',
    demo_item ''A'' 3 ''s3'' ''l3'']) > 2 \<and> (0::int) \<le> 2 \<and>
   digest_lines [demo_item ''A'' 1 ''s1'' ''l1'', demo_item ''B'' 2 ''s2'' ''l2'',
      demo_item ''A'' 3 ''s3'' ''l3''] 2 =
     [digest_header,
      heading_line (ascii ''A''),
      summary_line 1 (demo_item ''A'' 1 ''s1'' ''l1''), link_line (demo_item ''A'' 1 ''s1'' ''l1''),
      heading_line (ascii ''B''),
      summary_line 1 (demo_item ''B'' 2 ''s2'' ''l2''), link_line (demo_item ''B'' 2 ''s2'' ''l2''),
      [10, 8230, 50808, 32] @ ascii ''1'' @ [44148, 51008, 32] @ ascii ''HTML/JSON'' @
      [32, 54028, 51068, 51012, 32, 54869, 51064, 54616, 49464, 50836, 46]] \<and>
   length (digest_lines [demo_item ''A'' 1 ''s1'' ''l1'', demo_item ''B'' 2 ''s2'' ''l2'',
      demo_item ''A'' 3 ''s3'' ''l3''] 2) = 8 \<and>
   int (length [demo_item ''A'' 1 ''s1'' ''l1'', demo_item ''B'' 2 ''s2'' ''l2'',
    demo_item ''A'' 3 ''s3'' ''l3'']) \<le> 3 \<and>
   digest_lines [demo_item ''A'' 1 ''s1'' ''l1'', demo_item ''B'' 2 ''s2'' ''l2'',
      demo_item ''A'' 3 ''s3'' ''l3''] 3 =
     [digest_header,
      heading_line (ascii ''A''),
      summary_line 1 (demo_item ''A'' 1 ''s1'' ''l1''), link_line (demo_item ''A'' 1 ''s1'' ''l1''),
      summary_line 2 (demo_item ''A'' 3 ''s3'' ''l3''), link_line (demo_item ''A'' 3 ''s3'' ''l3''),
      heading_line (ascii ''B''),
      summary_line 1 (demo_item ''B'' 2 ''s2'' ''l2''), link_line (demo_item ''B'' 2 ''s2'' ''l2'')] \<and>
   omitted_note 1 \<notin> set (digest_lines [demo_item ''A'' 1 ''s1'' ''l1'',
      demo_item ''B'' 2 ''s2'' ''l2'', demo_item ''A'' 3 ''s3'' ''l3''] 3) \<and>
   last (digest_lines (replicate 13 (demo_item ''A'' 1 ''s1'' ''l1'') @
                       replicate 12 (demo_item ''B'' 2 ''s2'' ''l2'')) 20) =
     [10, 8230, 50808, 32] @ ascii ''5'' @ [44148, 51008, 32] @ ascii ''HTML/JSON'' @
      [32, 54028, 51068, 51012, 32, 54869, 51064, 54616, 49464, 50836, 46] \<and>
   take 2 (link_line (demo_item ''B'' 2 ''s2'' ''l2'')) \<noteq> [10, 8230]"
proof -
  let ?a1 = "demo_item ''A'' 1 ''s1'' ''l1''"
  let ?b = "demo_item ''B'' 2 ''s2'' ''l2''"
  let ?a3 = "demo_item ''A'' 3 ''s3'' ''l3''"
  let ?many = "replicate 13 ?a1 @ replicate 12 ?b"
  have ne: "ascii ''A'' \<noteq> ascii ''B''" "ascii ''B'' \<noteq> ascii ''A''" by (simp_all add: ascii_def)
  have g2: "group_items [?a1, ?b] = [(ascii ''A'', [?a1]), (ascii ''B'', [?b])]"
    by (simp add: group_items_def demo_item_fields ne)
  have g3: "group_items [?a1, ?b, ?a3] = [(ascii ''A'', [?a1, ?a3]), (ascii ''B'', [?b])]"
    by (simp add: group_items_def demo_item_fields ne)
  have n1: "py_str_int 1 = ascii ''1''" and n5: "py_str_int 5 = ascii ''5''"
    by (simp_all add: py_str_int_def nat_digits.simps ascii_def)
  have c1: "[?a1, ?b, ?a3] \<noteq> []" by simp
  have c2: "int (length [?a1, ?b, ?a3]) > 2" by simp
  have c3: "(0::int) \<le> 2" by simp
  have c4: "digest_lines [?a1, ?b, ?a3] 2 =
     [digest_header, heading_line (ascii ''A''), summary_line 1 ?a1, link_line ?a1,
      heading_line (ascii ''B''), summary_line 1 ?b, link_line ?b,
      [10, 8230, 50808, 32] @ ascii ''1'' @ [44148, 51008, 32] @ ascii ''HTML/JSON'' @
      [32, 54028, 51068, 51012, 32, 54869, 51064, 54616, 49464, 50836, 46]]"
    by (simp add: digest_lines_def slice_to_def g2 group_lines_def omitted_note_def n1)
  have c5: "length (digest_lines [?a1, ?b, ?a3] 2) = 8" unfolding c4 by simp
  have c6: "int (length [?a1, ?b, ?a3]) \<le> 3" by simp
  have c7: "digest_lines [?a1, ?b, ?a3] 3 =
     [digest_header, heading_line (ascii ''A''), summary_line 1 ?a1, link_line ?a1,
      summary_line 2 ?a3, link_line ?a3,
      heading_line (ascii ''B''), summary_line 1 ?b, link_line ?b]"
    by (simp add: digest_lines_def slice_to_def g3 group_lines_def numeral_2_eq_2)
  from digest_cap_and_note [of "[?a1, ?b, ?a3]" 3] c1 c6
  have c8: "omitted_note 1 \<notin> set (digest_lines [?a1, ?b, ?a3] 3)" by blast
  have m: "?many \<noteq> []" "int (length ?many) > 20" by simp_all
  have m5: "int (length ?many) - 20 = 5" by simp
  from digest_cap_and_note [of ?many 20] m
  have "last (digest_lines ?many 20) =
          [10, 8230, 50808, 32] @ py_str_int (int (length ?many) - 20) @ [44148, 51008, 32] @
            ascii ''HTML/JSON'' @
            [32, 54028, 51068, 51012, 32, 54869, 51064, 54616, 49464, 50836, 46]" by blast
  then have c9: "last (digest_lines ?many 20) =
     [10, 8230, 50808, 32] @ ascii ''5'' @ [44148, 51008, 32] @ ascii ''HTML/JSON'' @
      [32, 54028, 51068, 51012, 32, 54869, 51064, 54616, 49464, 50836, 46]"
    unfolding m5 n5 .
  have "link_line ?b \<in> set (digest_lines [?a1, ?b, ?a3] 3)" unfolding c7 by simp
  with digest_cap_and_note [of "[?a1, ?b, ?a3]" 3] c1 c6
  have c10: "take 2 (link_line ?b) \<noteq> [10, 8230]" by blast
  show ?thesis by (intro conjI) (fact c1 c2 c3 c4 c5 c6 c7 c8 c9 c10)+
qed

lemma line_shapes:
  "heading_line t = [10, 128204, 32] @ ascii ''<b>'' @ html_escape t @ ascii ''</b>''"
  "summary_line idx item = py_str_int (int idx) @ ascii '') '' @ html_escape (summary item)"
  "link_line item =
     [128279, 32] @ ascii ''<a href=\"'' @ message_link item @ ascii ''\">'' @
     [50896, 47928, 32, 47553, 53356] @ ascii ''</a>''"
  by (simp_all add: heading_line_def summary_line_def link_line_def)

text \<open>
  Claim C3, as amended. Every line of the message is the header, the note, or a line
  of one of the capped items: its group's heading, which holds the escaped channel
  title; its summary line, which holds the escaped summary; or its link line, which
  holds the link as it is. Each capped item has these three lines. Escaped text
  contains none of the characters \<open><\<close>, \<open>>\<close>, double quote and single quote.
\<close>

theorem digest_escapes_title_and_summary:
  "items \<noteq> [] \<longrightarrow>
     build_digest_message items max_items = py_join [10] (digest_lines items max_items) \<and>
     (\<forall>l\<in>set (digest_lines items max_items).
        l = digest_header \<or> l = omitted_note (int (length items) - max_items) \<or>
        (\<exists>item\<in>set (slice_to items max_items).
           l = [10, 128204, 32] @ ascii ''<b>'' @ html_escape (channel_title item) @ ascii ''</b>'' \<or>
           (\<exists>idx. l = py_str_int (int idx) @ ascii '') '' @ html_escape (summary item)) \<or>
           l = [128279, 32] @ ascii ''<a href=\"'' @ message_link item @ ascii ''\">'' @
               [50896, 47928, 32, 47553, 53356] @ ascii ''</a>'')) \<and>
     (\<forall>item\<in>set (slice_to items max_items).
        [10, 128204, 32] @ ascii ''<b>'' @ html_escape (channel_title item) @ ascii ''</b>''
          \<in> set (digest_lines items max_items) \<and>
        (\<exists>idx. py_str_int (int idx) @ ascii '') '' @ html_escape (summary item)
          \<in> set (digest_lines items max_items)) \<and>
        [128279, 32] @ ascii ''<a href=\"'' @ message_link item @ ascii ''\">'' @
               [50896, 47928, 32, 47553, 53356] @ ascii ''</a>''
          \<in> set (digest_lines items max_items)) \<and>
     (\<forall>s c. c \<in> set (html_escape s) \<longrightarrow> c \<noteq> 60 \<and> c \<noteq> 62 \<and> c \<noteq> 34 \<and> c \<noteq> 39)"
proof (intro impI conjI ballI allI)
  assume "items \<noteq> []"
  then show "build_digest_message items max_items = py_join [10] (digest_lines items max_items)"
    by (simp add: build_digest_message_def)
next
  fix l
  assume "l \<in> set (digest_lines items max_items)"
  then have "l = digest_header \<or> l = omitted_note (int (length items) - max_items) \<or>
      l \<in> set (concat (map group_lines (group_items (slice_to items max_items))))"
    unfolding digest_lines_unfold by (auto split: if_splits)
  then show "l = digest_header \<or> l = omitted_note (int (length items) - max_items) \<or>
        (\<exists>item\<in>set (slice_to items max_items).
           l = [10, 128204, 32] @ ascii ''<b>'' @ html_escape (channel_title item) @ ascii ''</b>'' \<or>
           (\<exists>idx. l = py_str_int (int idx) @ ascii '') '' @ html_escape (summary item)) \<or>
           l = [128279, 32] @ ascii ''<a href=\"'' @ message_link item @ ascii ''\">'' @
               [50896, 47928, 32, 47553, 53356] @ ascii ''</a>'')"
    unfolding line_shapes [symmetric] using rendered_lines_cases [of l "slice_to items max_items"]
    by blast
next
  fix item
  assume i: "item \<in> set (slice_to items max_items)"
  have sub: "set (concat (map group_lines (group_items (slice_to items max_items)))) \<subseteq>
      set (digest_lines items max_items)"
    unfolding digest_lines_unfold by auto
  from rendered_lines_members(3) [OF i] sub
  show "[10, 128204, 32] @ ascii ''<b>'' @ html_escape (channel_title item) @ ascii ''</b>''
          \<in> set (digest_lines items max_items)"
    unfolding line_shapes [symmetric] by blast
  from rendered_lines_members(2) [OF i] sub
  show "\<exists>idx. py_str_int (int idx) @ ascii '') '' @ html_escape (summary item)
          \<in> set (digest_lines items max_items)"
    unfolding line_shapes [symmetric] by blast
  from rendered_lines_members(1) [OF i] sub
  show "[128279, 32] @ ascii ''<a href=\"'' @ message_link item @ ascii ''\">'' @
               [50896, 47928, 32, 47553, 53356] @ ascii ''</a>''
          \<in> set (digest_lines items max_items)"
    unfolding line_shapes [symmetric] by blast
next
  fix s c
  assume "c \<in> set (html_escape s)"
  then show "c \<noteq> 60" "c \<noteq> 62" "c \<noteq> 34" "c \<noteq> 39"
    using html_escape_no_markup by blast+
qed

lemma html_escape_examples:
  "html_escape (ascii ''A<B'') = ascii ''A&lt;B''"
  "html_escape (ascii ''A'') = ascii ''A''"
  "html_escape (ascii ''<script>'') = ascii ''&lt;script&gt;''"
  "html_escape (ascii ''x\"><b>'') = ascii ''x&quot;&gt;&lt;b&gt;''"
  by (simp_all add: html_escape_def escape_char_def ascii_def)

lemma py_str_int_one: "py_str_int (int 1) = ascii ''1''"
  by (simp add: py_str_int_def nat_digits.simps ascii_def)

text \<open>The amended claim at one item whose title is \<open>A<B\<close> and whose summary is
  \<open><script>\<close>: both appear escaped.\<close>

theorem digest_escapes_title_and_summary_witness:
  "[demo_item ''A<B'' 1 ''<script>'' ''https://t.me/c/1/2''] \<noteq> [] \<and>
   demo_item ''A<B'' 1 ''<script>'' ''https://t.me/c/1/2''
     \<in> set (slice_to [demo_item ''A<B'' 1 ''<script>'' ''https://t.me/c/1/2''] 20) \<and>
   digest_lines [demo_item ''A<B'' 1 ''<script>'' ''https://t.me/c/1/2''] 20 =
     [digest_header,
      [10, 128204, 32] @ ascii ''<b>'' @ ascii ''A&lt;B'' @ ascii ''</b>'',
      ascii ''1'' @ ascii '') '' @ ascii ''&lt;script&gt;'',
      [128279, 32] @ ascii ''<a href=\"'' @ ascii ''https://t.me/c/1/2'' @ ascii ''\">'' @
        [50896, 47928, 32, 47553, 53356] @ ascii ''</a>''] \<and>
   [10, 128204, 32] @ ascii ''<b>'' @ ascii ''A&lt;B'' @ ascii ''</b>''
     \<in> set (digest_lines [demo_item ''A<B'' 1 ''<script>'' ''https://t.me/c/1/2''] 20) \<and>
   60 \<notin> set (html_escape (ascii ''<script>''))"
proof -
  let ?it = "demo_item ''A<B'' 1 ''<script>'' ''https://t.me/c/1/2''"
  have c1: "[?it] \<noteq> []" by simp
  have c2: "?it \<in> set (slice_to [?it] 20)" by (simp add: slice_to_def)
  have c3: "digest_lines [?it] 20 =
     [digest_header,
      [10, 128204, 32] @ ascii ''<b>'' @ ascii ''A&lt;B'' @ ascii ''</b>'',
      ascii ''1'' @ ascii '') '' @ ascii ''&lt;script&gt;'',
      [128279, 32] @ ascii ''<a href=\"'' @ ascii ''https://t.me/c/1/2'' @ ascii ''\">'' @
        [50896, 47928, 32, 47553, 53356] @ ascii ''</a>'']"
    using py_str_int_one
    by (simp add: digest_lines_def slice_to_def group_items_def group_lines_def line_shapes
        demo_item_fields html_escape_examples)
  from digest_escapes_title_and_summary [of "[?it]" 20] c1 c2
  have "[10, 128204, 32] @ ascii ''<b>'' @ html_escape (channel_title ?it) @ ascii ''</b>''
     \<in> set (digest_lines [?it] 20)" by blast
  then have c4: "[10, 128204, 32] @ ascii ''<b>'' @ ascii ''A&lt;B'' @ ascii ''</b>''
     \<in> set (digest_lines [?it] 20)"
    by (simp only: demo_item_fields html_escape_examples)
  from digest_escapes_title_and_summary [of "[?it]" 20] c1
  have c5: "60 \<notin> set (html_escape (ascii ''<script>''))" by blast
  show ?thesis by (intro conjI) (fact c1 c2 c3 c4 c5)+
qed

text \<open>
  Claim C3 as stated fails for the link: an item whose link is \<open>x"><b>\<close> has it in
  the message as it is, inside the \<open>href\<close> attribute, while its summary \<open><script>\<close>
  is escaped. The escaped link would be \<open>x&quot;&gt;&lt;b&gt;\<close>.
\<close>

theorem raw_link_counterexample:
  "build_digest_message [demo_item ''A'' 1 ''<script>'' ''x\"><b>''] 20 =
     digest_header @ [10] @
     [10, 128204, 32] @ ascii ''<b>A</b>'' @ [10] @
     ascii ''1) &lt;script&gt;'' @ [10] @
     [128279, 32] @ ascii ''<a href=\"x\"><b>\">'' @ [50896, 47928, 32, 47553, 53356] @
     ascii ''</a>'' \<and>
   html_escape (message_link (demo_item ''A'' 1 ''<script>'' ''x\"><b>'')) =
     ascii ''x&quot;&gt;&lt;b&gt;'' \<and>
   html_escape (message_link (demo_item ''A'' 1 ''<script>'' ''x\"><b>'')) \<noteq>
     message_link (demo_item ''A'' 1 ''<script>'' ''x\"><b>'')"
proof -
  let ?it = "demo_item ''A'' 1 ''<script>'' ''x\"><b>''"
  have d: "digest_lines [?it] 20 =
     [digest_header,
      [10, 128204, 32] @ ascii ''<b>'' @ ascii ''A'' @ ascii ''</b>'',
      ascii ''1'' @ ascii '') '' @ ascii ''&lt;script&gt;'',
      [128279, 32] @ ascii ''<a href=\"'' @ ascii ''x\"><b>'' @ ascii ''\">'' @
        [50896, 47928, 32, 47553, 53356] @ ascii ''</a>'']"
    using py_str_int_one
    by (simp add: digest_lines_def slice_to_def group_items_def group_lines_def line_shapes
        demo_item_fields html_escape_examples)
  have a: "build_digest_message [?it] 20 =
     digest_header @ [10] @
     [10, 128204, 32] @ ascii ''<b>A</b>'' @ [10] @
     ascii ''1) &lt;script&gt;'' @ [10] @
     [128279, 32] @ ascii ''<a href=\"x\"><b>\">'' @ [50896, 47928, 32, 47553, 53356] @
     ascii ''</a>''"
    by (simp add: build_digest_message_def d) (simp add: ascii_def)
  have b: "html_escape (message_link ?it) = ascii ''x&quot;&gt;&lt;b&gt;''"
    by (simp add: demo_item_fields html_escape_examples)
  have c: "html_escape (message_link ?it) \<noteq> message_link ?it"
    unfolding b by (simp add: demo_item_fields ascii_def)
  from a b c show ?thesis by blast
qed

end
